theory Spec2Isabelle
  imports Main "HOL-Library.Log_Nat"
begin

section \<open>JavaScript numbers\<close>

text \<open>
  A JavaScript \<open>number\<close> is an IEEE 754 binary64 value. The finite values are carried by
  rationals; \<open>PInf\<close>, \<open>NInf\<close> and \<open>NaN\<close> are Infinity, -Infinity and NaN. Every arithmetic
  operation computes the exact rational result and rounds it to the nearest double, ties to
  even (\<open>rnd\<close>), overflowing to an infinity from \<open>2 ^ 1024 - 2 ^ 970\<close> on. The sign of zero
  is not modelled (both zeros are \<open>Fin 0\<close>): the code modelled below never divides by a zero
  and never prints the sign of one.
\<close>

datatype number = Fin rat | PInf | NInf | NaN

definition pow2 :: "int \<Rightarrow> rat" where
  "pow2 k = (if 0 \<le> k then 2 ^ nat k else 1 / 2 ^ nat (- k))"

definition pow10 :: "int \<Rightarrow> rat" where
  "pow10 k = (if 0 \<le> k then 10 ^ nat k else 1 / 10 ^ nat (- k))"

text \<open>\<open>ilog2 a\<close> is the binary exponent of a positive rational: \<open>2 ^ e \<le> a < 2 ^ (e + 1)\<close>.\<close>

definition ilog2 :: "rat \<Rightarrow> int" where
  "ilog2 a =
     (if 1 \<le> a then bitlen \<lfloor>a\<rfloor> - 1
      else (let k = bitlen \<lfloor>1 / a\<rfloor> - 1
            in if 1 / a = pow2 k then - k else - (k + 1)))"

definition round_half_even :: "rat \<Rightarrow> int" where
  "round_half_even x =
     (let f = \<lfloor>x\<rfloor>; d = x - of_int f
      in if d < 1 / 2 then f else if 1 / 2 < d then f + 1
         else if even f then f else f + 1)"

text \<open>
  The spacing of the doubles around a positive rational: 53 significant bits for the normal
  numbers, the fixed spacing \<open>2 ^ - 1074\<close> for the subnormal ones.
\<close>

definition quantum :: "rat \<Rightarrow> rat" where
  "quantum a = pow2 (max (ilog2 a) (- 1022) - 52)"

definition rnd :: "rat \<Rightarrow> number" where
  "rnd x =
     (if x = 0 then Fin 0
      else (let a = \<bar>x\<bar>;
                q = quantum a;
                r = of_int (round_half_even (a / q)) * q
            in if pow2 1024 \<le> r then (if 0 < x then PInf else NInf)
               else Fin (if 0 < x then r else - r)))"

text \<open>A finite value is a double when rounding leaves it alone.\<close>

fun representable :: "number \<Rightarrow> bool" where
  "representable (Fin a) = (rnd a = Fin a)"
| "representable x = True"

fun is_finite :: "number \<Rightarrow> bool" where
  "is_finite (Fin a) = True"
| "is_finite x = False"

fun num_neg :: "number \<Rightarrow> number" where
  "num_neg (Fin a) = Fin (- a)"
| "num_neg PInf = NInf"
| "num_neg NInf = PInf"
| "num_neg NaN = NaN"

fun num_sgn :: "number \<Rightarrow> int" where
  "num_sgn (Fin a) = (if a < 0 then - 1 else 1)"
| "num_sgn NInf = - 1"
| "num_sgn x = 1"

definition signed_inf :: "int \<Rightarrow> number" where
  "signed_inf s = (if s < 0 then NInf else PInf)"

fun num_add :: "number \<Rightarrow> number \<Rightarrow> number" where
  "num_add (Fin a) (Fin b) = rnd (a + b)"
| "num_add NaN y = NaN"
| "num_add x NaN = NaN"
| "num_add PInf NInf = NaN"
| "num_add NInf PInf = NaN"
| "num_add PInf y = PInf"
| "num_add NInf y = NInf"
| "num_add x PInf = PInf"
| "num_add x NInf = NInf"

definition num_sub :: "number \<Rightarrow> number \<Rightarrow> number" where
  "num_sub x y = num_add x (num_neg y)"

fun num_mul :: "number \<Rightarrow> number \<Rightarrow> number" where
  "num_mul (Fin a) (Fin b) = rnd (a * b)"
| "num_mul NaN y = NaN"
| "num_mul x NaN = NaN"
| "num_mul x y =
     (if x = Fin 0 \<or> y = Fin 0 then NaN else signed_inf (num_sgn x * num_sgn y))"

fun num_div :: "number \<Rightarrow> number \<Rightarrow> number" where
  "num_div NaN y = NaN"
| "num_div x NaN = NaN"
| "num_div (Fin a) (Fin b) =
     (if b = 0 then (if a = 0 then NaN else signed_inf (num_sgn (Fin a))) else rnd (a / b))"
| "num_div (Fin a) y = Fin 0"
| "num_div x (Fin b) = signed_inf (num_sgn x * num_sgn (Fin b))"
| "num_div x y = NaN"

text \<open>\<open>x < y\<close>; every comparison with NaN is false.\<close>

fun num_less :: "number \<Rightarrow> number \<Rightarrow> bool" where
  "num_less NaN y = False"
| "num_less x NaN = False"
| "num_less (Fin a) (Fin b) = (a < b)"
| "num_less x NInf = False"
| "num_less PInf y = False"
| "num_less x PInf = True"
| "num_less NInf y = True"

definition num_le :: "number \<Rightarrow> number \<Rightarrow> bool" where
  "num_le x y = (x \<noteq> NaN \<and> y \<noteq> NaN \<and> (x = y \<or> num_less x y))"

text \<open>\<open>Math.round\<close>: the integer nearest to \<open>x\<close>, halves towards \<open>+\<infinity>\<close>.\<close>

fun math_round :: "number \<Rightarrow> number" where
  "math_round (Fin a) = Fin (of_int \<lfloor>a + 1 / 2\<rfloor>)"
| "math_round x = x"

fun math_abs :: "number \<Rightarrow> number" where
  "math_abs (Fin a) = Fin \<bar>a\<bar>"
| "math_abs NInf = PInf"
| "math_abs x = x"

text \<open>Truthiness of a number, and \<open>x || 0\<close>.\<close>

definition truthy :: "number \<Rightarrow> bool" where
  "truthy x = (x \<noteq> Fin 0 \<and> x \<noteq> NaN)"

definition or_zero :: "number \<Rightarrow> number" where
  "or_zero x = (if truthy x then x else Fin 0)"

text \<open>\<open>reduce((sum, x) => sum + x, 0)\<close> and every \<open>+=\<close> loop: a sum from the left.\<close>

definition sum_left :: "number list \<Rightarrow> number" where
  "sum_left xs = foldl num_add (Fin 0) xs"

section \<open>JavaScript strings\<close>

text \<open>
  A string is its sequence of UTF-16 code units. \<open>js\<close> embeds an ASCII literal.
  \<open>is_space\<close> is the class \<open>\s\<close> of regular expressions, which is also what \<open>trim\<close> strips
  and what \<open>parseFloat\<close> skips: WhiteSpace and LineTerminator. \<open>is_dot\<close> is the class \<open>.\<close>
  (no flag): everything but the four line terminators.
\<close>

type_synonym jsstring = "nat list"

definition js :: "string \<Rightarrow> jsstring" where
  "js s = map of_char s"

definition is_space :: "nat \<Rightarrow> bool" where
  "is_space c =
     (c \<in> {9, 10, 11, 12, 13, 32, 160, 5760, 8232, 8233, 8239, 8287, 12288, 65279}
      \<or> (8192 \<le> c \<and> c \<le> 8202))"

definition is_digit :: "nat \<Rightarrow> bool" where
  "is_digit c = (48 \<le> c \<and> c \<le> 57)"

definition is_dot :: "nat \<Rightarrow> bool" where
  "is_dot c = (c \<notin> {10, 13, 8232, 8233})"

definition trim :: "jsstring \<Rightarrow> jsstring" where
  "trim s = rev (dropWhile is_space (rev (dropWhile is_space s)))"

definition starts_with :: "jsstring \<Rightarrow> jsstring \<Rightarrow> bool" where
  "starts_with p s = (take (length p) s = p)"

subsection \<open>Regular expressions\<close>

text \<open>
  The three patterns of the parser are anchored sequences of greedy repetitions of a
  character class. \<open>Rep p lo hi\<close> is the class \<open>p\<close> repeated at least \<open>lo\<close> and at most \<open>hi\<close>
  times (\<open>None\<close>: unbounded). \<open>match_seq\<close> is the backtracking matcher between \<open>^\<close> and
  \<open>$\<close>: each atom tries its longest run first, then shorter ones, and the first way that
  lets the rest of the pattern match to the end of the string wins. It returns what each
  atom consumed.
\<close>

datatype atom = Rep "nat \<Rightarrow> bool" nat "nat option"

primrec runs :: "(nat \<Rightarrow> bool) \<Rightarrow> jsstring \<Rightarrow> (jsstring \<times> jsstring) list" where
  "runs p [] = [([], [])]"
| "runs p (c # cs) =
     (if p c then map (\<lambda>(t, r). (c # t, r)) (runs p cs) else []) @ [([], c # cs)]"

definition choices :: "atom \<Rightarrow> jsstring \<Rightarrow> (jsstring \<times> jsstring) list" where
  "choices a s = (case a of Rep p lo hi \<Rightarrow>
     filter (\<lambda>(t, r). lo \<le> length t \<and> (case hi of None \<Rightarrow> True | Some h \<Rightarrow> length t \<le> h))
       (runs p s))"

primrec first_some :: "('a \<Rightarrow> 'b option) \<Rightarrow> 'a list \<Rightarrow> 'b option" where
  "first_some f [] = None"
| "first_some f (x # xs) = (case f x of Some y \<Rightarrow> Some y | None \<Rightarrow> first_some f xs)"

primrec match_seq :: "atom list \<Rightarrow> jsstring \<Rightarrow> jsstring list option" where
  "match_seq [] s = (if s = [] then Some [] else None)"
| "match_seq (a # as) s =
     first_some (\<lambda>(t, r). map_option (Cons t) (match_seq as r)) (choices a s)"

section \<open>Quick-entry parser (utils/parseLineItem.ts)\<close>

subsection \<open>parseFloat\<close>

text \<open>
  \<open>parseFloat\<close> skips leading white space and converts the longest prefix that is a
  StrDecimalLiteral: an optional sign, then \<open>Infinity\<close> or decimal digits with an optional
  fraction and an optional exponent. No such prefix gives NaN.
\<close>

definition digits_value :: "jsstring \<Rightarrow> nat" where
  "digits_value ds = foldl (\<lambda>n c. 10 * n + (c - 48)) 0 ds"

definition exponent_part :: "jsstring \<Rightarrow> int" where
  "exponent_part r =
     (case r of
        [] \<Rightarrow> 0
      | c # r1 \<Rightarrow>
          if c = 101 \<or> c = 69 then
            (case r1 of
               [] \<Rightarrow> 0
             | s # r2 \<Rightarrow>
                 if s = 43 \<or> s = 45 then
                   (if takeWhile is_digit r2 = [] then 0
                    else if s = 45 then - int (digits_value (takeWhile is_digit r2))
                    else int (digits_value (takeWhile is_digit r2)))
                 else int (digits_value (takeWhile is_digit r1)))
          else 0)"

definition parse_unsigned :: "jsstring \<Rightarrow> number" where
  "parse_unsigned t =
     (if starts_with (js ''Infinity'') t then PInf
      else (let ip = takeWhile is_digit t; r1 = dropWhile is_digit t;
                fp = (case r1 of [] \<Rightarrow> [] | c # r \<Rightarrow> if c = 46 then takeWhile is_digit r else []);
                r2 = (case r1 of [] \<Rightarrow> [] | c # r \<Rightarrow> if c = 46 then dropWhile is_digit r else r1)
            in if ip = [] \<and> fp = [] then NaN
               else rnd ((of_nat (digits_value ip) + of_nat (digits_value fp) / 10 ^ length fp)
                         * pow10 (exponent_part r2))))"

definition parseFloat :: "jsstring \<Rightarrow> number" where
  "parseFloat s =
     (case dropWhile is_space s of
        [] \<Rightarrow> NaN
      | c # r \<Rightarrow>
          if c = 45 then num_neg (parse_unsigned r)
          else if c = 43 then parse_unsigned r
          else parse_unsigned (c # r))"

subsection \<open>The evaluator\<close>

text \<open>
  \<open>split_keep p s\<close> is \<open>s.split(/([..])/)\<close> for a one-character class \<open>p\<close> in a capture
  group: the pieces between the separators, with every separator kept as a one-character
  element between them.
\<close>

fun split_keep :: "(nat \<Rightarrow> bool) \<Rightarrow> jsstring \<Rightarrow> jsstring list" where
  "split_keep p [] = [[]]"
| "split_keep p (c # cs) =
     (if p c then [] # [c] # split_keep p cs
      else (case split_keep p cs of [] \<Rightarrow> [[c]] | t # ts \<Rightarrow> (c # t) # ts))"

text \<open>
  The loop of \<open>evaluateMultiplyDivide\<close> from \<open>i = 1\<close> in steps of 2 over \<open>tokens\<close>: the
  operator \<open>tokens[i]\<close> and the operand \<open>tokens[i + 1]\<close> (\<open>undefined\<close> parses to NaN).
\<close>

fun muldiv_loop :: "number \<Rightarrow> jsstring list \<Rightarrow> number option" where
  "muldiv_loop result [] = Some result"
| "muldiv_loop result [op] = None"
| "muldiv_loop result (op # t # tokens) =
     (let v = parseFloat t
      in if v = NaN then None
         else if op = [42] then muldiv_loop (num_mul result v) tokens
         else if op = [47] then (if v = Fin 0 then None else muldiv_loop (num_div result v) tokens)
         else muldiv_loop result tokens)"

definition evaluateMultiplyDivide :: "jsstring \<Rightarrow> number option" where
  "evaluateMultiplyDivide expression =
     (case split_keep (\<lambda>c. c = 42 \<or> c = 47) expression of
        [] \<Rightarrow> None
      | t # tokens \<Rightarrow>
          (let result = parseFloat t
           in if result = NaN then None else muldiv_loop result tokens))"

definition is_math_char :: "nat \<Rightarrow> bool" where
  "is_math_char c = (is_digit c \<or> c \<in> {43, 45, 42, 47, 46})"

fun addsub_loop :: "number \<Rightarrow> jsstring \<Rightarrow> jsstring list \<Rightarrow> number option" where
  "addsub_loop result currentOp [] = Some result"
| "addsub_loop result currentOp (token # tokens) =
     (if token = [43] \<or> token = [45] then addsub_loop result token tokens
      else (case evaluateMultiplyDivide token of
              None \<Rightarrow> None
            | Some v \<Rightarrow>
                addsub_loop (if currentOp = [43] then num_add result v else num_sub result v)
                  currentOp tokens))"

definition round2 :: "number \<Rightarrow> number" where
  "round2 result = num_div (math_round (num_mul result (Fin 100))) (Fin 100)"

definition evaluateMath :: "jsstring \<Rightarrow> number option" where
  "evaluateMath expression =
     (let cleaned = filter (\<lambda>c. \<not> is_space c) expression
      in if cleaned = [] \<or> \<not> list_all is_math_char cleaned then None
         else (case addsub_loop (Fin 0) [43] (split_keep (\<lambda>c. c = 43 \<or> c = 45) cleaned) of
                 None \<Rightarrow> None
               | Some result \<Rightarrow> Some (round2 result)))"

subsection \<open>parseLineItem\<close>

record ParsedLineItem =
  amount :: number
  title :: jsstring

definition is_amount_char :: "nat \<Rightarrow> bool" where
  "is_amount_char c = (is_math_char c \<or> is_space c)"

text \<open>\<open>/^\$?\s*([0-9+\-*/.\s]+)\s*-\s*(.+)$/\<close>\<close>

definition dollarPattern :: "atom list" where
  "dollarPattern =
     [Rep (\<lambda>c. c = 36) 0 (Some 1), Rep is_space 0 None, Rep is_amount_char 1 None,
      Rep is_space 0 None, Rep (\<lambda>c. c = 45) 1 (Some 1), Rep is_space 0 None,
      Rep is_dot 1 None]"

text \<open>\<open>/^([0-9+\-*/.\s]+)\s+(.+)$/\<close>\<close>

definition numberPattern :: "atom list" where
  "numberPattern = [Rep is_amount_char 1 None, Rep is_space 1 None, Rep is_dot 1 None]"

text \<open>\<open>/^([0-9+\-*/.\s]+)(.*)$/\<close>\<close>

definition simplePattern :: "atom list" where
  "simplePattern = [Rep is_amount_char 1 None, Rep is_dot 0 None]"

text \<open>The two capture groups of each pattern.\<close>

definition dollarMatch :: "jsstring \<Rightarrow> (jsstring \<times> jsstring) option" where
  "dollarMatch s =
     (case match_seq dollarPattern s of
        Some [d, w1, g1, w2, h, w3, g2] \<Rightarrow> Some (g1, g2)
      | _ \<Rightarrow> None)"

definition numberMatch :: "jsstring \<Rightarrow> (jsstring \<times> jsstring) option" where
  "numberMatch s =
     (case match_seq numberPattern s of Some [g1, w, g2] \<Rightarrow> Some (g1, g2) | _ \<Rightarrow> None)"

definition simpleMatch :: "jsstring \<Rightarrow> (jsstring \<times> jsstring) option" where
  "simpleMatch s =
     (case match_seq simplePattern s of Some [g1, g2] \<Rightarrow> Some (g1, g2) | _ \<Rightarrow> None)"

text \<open>
  The tail shared by the three branches: evaluate the amount, refuse \<open>null\<close> and
  \<open>amount <= 0\<close>, return the pair.
\<close>

definition amount_result :: "jsstring \<Rightarrow> jsstring \<Rightarrow> jsstring + ParsedLineItem" where
  "amount_result amountStr ttl =
     (case evaluateMath amountStr of
        None \<Rightarrow> Inl (js ''Invalid amount'')
      | Some a \<Rightarrow>
          if num_le a (Fin 0) then Inl (js ''Invalid amount'')
          else Inr \<lparr>amount = a, title = ttl\<rparr>)"

definition parseLineItem :: "jsstring \<Rightarrow> jsstring + ParsedLineItem" where
  "parseLineItem input =
     (let trimmed = trim input
      in if trimmed = [] then Inl (js ''Input cannot be empty'')
         else (case dollarMatch trimmed of
                 Some (g1, g2) \<Rightarrow>
                   if trim g2 = [] then Inl (js ''Title cannot be empty'')
                   else amount_result (trim g1) (trim g2)
               | None \<Rightarrow>
                   (case numberMatch trimmed of
                      Some (g1, g2) \<Rightarrow>
                        if trim g2 = [] then Inl (js ''Title cannot be empty'')
                        else amount_result (trim g1) (trim g2)
                    | None \<Rightarrow>
                        (case simpleMatch trimmed of
                           Some (g1, g2) \<Rightarrow>
                             amount_result (trim g1)
                               (if trim g2 = [] then js ''Expense'' else trim g2)
                         | None \<Rightarrow>
                             Inl (js ''Could not parse input. Try format: $190 - description'')))))"

section \<open>Data model (types/index.ts)\<close>

text \<open>
  Optional fields are options. The fields \<open>id\<close>, \<open>make\<close>, \<open>model\<close>, \<open>title\<close>, \<open>amount\<close>,
  \<open>date\<close>, \<open>created_at\<close> and \<open>updated_at\<close> carry a suffix where two interfaces share the
  name or the name is taken.
\<close>

datatype category = Parts | Labor | Fees | Misc

record Flip =
  id_f :: nat
  year :: "number option"
  make_f :: "jsstring option"
  model_f :: "jsstring option"
  vin :: "jsstring option"
  miles :: "number option"
  buy_price :: number
  sell_price :: "number option"
  sold_date :: "jsstring option"
  created_at :: jsstring
  updated_at :: jsstring

record LineItem =
  id_li :: nat
  flip_id :: nat
  title_li :: jsstring
  amount_li :: number
  category :: "category option"
  date_li :: "jsstring option"
  created_at_li :: jsstring
  updated_at_li :: jsstring

record FlipTotals =
  totalCost :: number
  profit :: number
  roi :: number

text \<open>\<open>x || 0\<close> for an optional number.\<close>

definition opt_or_zero :: "number option \<Rightarrow> number" where
  "opt_or_zero x = (case x of None \<Rightarrow> Fin 0 | Some v \<Rightarrow> or_zero v)"

section \<open>Totals (db/index.ts)\<close>

text \<open>
  The database is read through its two queries: \<open>getFlipById\<close> (\<open>null\<close> is \<open>None\<close>) and
  \<open>getLineItemsByFlip\<close>, the rows in the order the query returns them.
\<close>

record store =
  getFlipById :: "nat \<Rightarrow> Flip option"
  getLineItemsByFlip :: "nat \<Rightarrow> LineItem list"

datatype error = Flip_not_found

definition computeTotals :: "store \<Rightarrow> nat \<Rightarrow> error + FlipTotals" where
  "computeTotals db flipId =
     (case getFlipById db flipId of
        None \<Rightarrow> Inl Flip_not_found
      | Some fl \<Rightarrow>
          (let items = getLineItemsByFlip db flipId;
               total = foldl (\<lambda>sum item. num_add sum (amount_li item)) (Fin 0) items;
               sellPrice = opt_or_zero (sell_price fl);
               prof = num_sub sellPrice (num_add (buy_price fl) total);
               investedAmount = num_add (buy_price fl) total;
               r = (if num_less (Fin 0) investedAmount then num_div prof investedAmount
                    else Fin 0)
           in Inr \<lparr>totalCost = total, profit = prof, roi = r\<rparr>))"

section \<open>What-if totals (screens/FlipSheet.tsx)\<close>

text \<open>The component state that \<open>computeWhatIfTotals\<close> reads.\<close>

record FlipSheet =
  sheet_flip :: "Flip option"
  sheet_totals :: FlipTotals
  buyPrice :: jsstring
  whatIfSellPrice :: jsstring

definition computeWhatIfTotals :: "FlipSheet \<Rightarrow> FlipTotals" where
  "computeWhatIfTotals st =
     (let whatIfSellPriceNum =
            (if whatIfSellPrice st \<noteq> [] then parseFloat (whatIfSellPrice st)
             else (case sheet_flip st of None \<Rightarrow> Fin 0 | Some fl \<Rightarrow> opt_or_zero (sell_price fl)));
          buyPriceNum =
            (case sheet_flip st of
               Some fl \<Rightarrow> if truthy (buy_price fl) then buy_price fl
                          else or_zero (parseFloat (buyPrice st))
             | None \<Rightarrow> or_zero (parseFloat (buyPrice st)));
          total = totalCost (sheet_totals st);
          prof = num_sub whatIfSellPriceNum (num_add buyPriceNum total);
          investedAmount = num_add buyPriceNum total;
          r = (if num_less (Fin 0) investedAmount then num_div prof investedAmount else Fin 0)
      in \<lparr>totalCost = total, profit = prof, roi = r\<rparr>)"

section \<open>Aggregate summary (screens/Settings.tsx)\<close>

record FlipData =
  flip :: Flip
  lineItems :: "LineItem list"
  totals :: FlipTotals

record TaxExportData = FlipData +
  taxYear :: number

record Summary =
  totalFlips :: nat
  totalProfit :: number
  totalLoss :: number
  netGainLoss :: number
  totalExpenses :: number
  totalSales :: number
  totalPurchases :: number

record AllFlipsTaxData =
  flips :: "FlipData list"
  taxYear_all :: number
  summary :: Summary

text \<open>The local variables of the loop of \<open>exportCompleteTaxReport\<close>.\<close>

record collected =
  flipsData :: "FlipData list"
  sales_acc :: number
  purchases_acc :: number
  expenses_acc :: number
  profit_acc :: number
  loss_acc :: number

fun collect :: "store \<Rightarrow> Flip list \<Rightarrow> collected \<Rightarrow> error + collected" where
  "collect db [] st = Inr st"
| "collect db (fl # rest) st =
     (case computeTotals db (id_f fl) of
        Inl e \<Rightarrow> Inl e
      | Inr t \<Rightarrow>
          collect db rest
            (st\<lparr>flipsData :=
                   flipsData st @ [\<lparr>flip = fl, lineItems = getLineItemsByFlip db (id_f fl), totals = t\<rparr>],
                 sales_acc := num_add (sales_acc st) (opt_or_zero (sell_price fl)),
                 purchases_acc := num_add (purchases_acc st) (buy_price fl),
                 expenses_acc := num_add (expenses_acc st) (totalCost t),
                 profit_acc :=
                   (if num_less (Fin 0) (profit t) then num_add (profit_acc st) (profit t)
                    else profit_acc st),
                 loss_acc :=
                   (if num_less (Fin 0) (profit t) then loss_acc st
                    else num_add (loss_acc st) (math_abs (profit t)))\<rparr>))"

datatype alert = No_data | Export_failed

text \<open>
  \<open>exportCompleteTaxReport\<close> up to its call of \<open>exportAllFlipsTaxReport\<close>: the alert it shows
  instead, or the data it hands over. \<open>currentYear\<close> is \<open>new Date().getFullYear()\<close>.
\<close>

definition exportCompleteTaxReport :: "store \<Rightarrow> Flip list \<Rightarrow> number \<Rightarrow> alert + AllFlipsTaxData" where
  "exportCompleteTaxReport db fls currentYear =
     (if fls = [] then Inl No_data
      else (case collect db fls
                   \<lparr>flipsData = [], sales_acc = Fin 0, purchases_acc = Fin 0, expenses_acc = Fin 0,
                    profit_acc = Fin 0, loss_acc = Fin 0\<rparr> of
              Inl e \<Rightarrow> Inl Export_failed
            | Inr st \<Rightarrow>
                Inr \<lparr>flips = flipsData st, taxYear_all = currentYear,
                     summary =
                       \<lparr>totalFlips = length fls, totalProfit = profit_acc st,
                        totalLoss = loss_acc st,
                        netGainLoss = num_sub (profit_acc st) (loss_acc st),
                        totalExpenses = expenses_acc st, totalSales = sales_acc st,
                        totalPurchases = purchases_acc st\<rparr>\<rparr>))"

section \<open>Tax reports (utils/taxExport.ts)\<close>

text \<open>
  What the generators take from their surroundings: the clock (\<open>today\<close> is
  \<open>new Date().toLocaleDateString()\<close>), the locale (\<open>localeDate s\<close> is
  \<open>new Date(s).toLocaleDateString()\<close>, \<open>localeNumber\<close> is \<open>toLocaleString\<close>), the conversions of
  a number to text (\<open>numberText\<close> in a template, \<open>toFixed2\<close> is \<open>toFixed(2)\<close>), and
  \<open>formatCurrency\<close> of utils/currency, a module that is not among the sources.
\<close>

record env =
  today :: jsstring
  localeDate :: "jsstring \<Rightarrow> jsstring"
  localeNumber :: "number \<Rightarrow> jsstring"
  numberText :: "number \<Rightarrow> jsstring"
  toFixed2 :: "number \<Rightarrow> jsstring"
  formatCurrency :: "number \<Rightarrow> jsstring"

definition nl :: jsstring where
  "nl = [10]"

definition tab :: jsstring where
  "tab = [9]"

definition category_name :: "category \<Rightarrow> jsstring" where
  "category_name c =
     (case c of Parts \<Rightarrow> js ''parts'' | Labor \<Rightarrow> js ''labor'' | Fees \<Rightarrow> js ''fees''
      | Misc \<Rightarrow> js ''misc'')"

definition categories :: "category list" where
  "categories = [Parts, Labor, Fees, Misc]"

text \<open>\<open>toUpperCase\<close> on the letters a to z, which is all a category name holds.\<close>

definition upper_unit :: "nat \<Rightarrow> nat" where
  "upper_unit c = (if 97 \<le> c \<and> c \<le> 122 then c - 32 else c)"

definition capitalize :: "jsstring \<Rightarrow> jsstring" where
  "capitalize s = (case s of [] \<Rightarrow> [] | c # cs \<Rightarrow> upper_unit c # cs)"

text \<open>\<open>[a, b, c].filter(Boolean).join(' ') || fallback\<close>\<close>

fun join_space :: "jsstring list \<Rightarrow> jsstring" where
  "join_space [] = []"
| "join_space [x] = x"
| "join_space (x # xs) = x @ [32] @ join_space xs"

definition displayName :: "env \<Rightarrow> Flip \<Rightarrow> jsstring \<Rightarrow> jsstring" where
  "displayName e fl fallback =
     (let parts =
            (case year fl of None \<Rightarrow> [] | Some y \<Rightarrow> if truthy y then [numberText e y] else [])
            @ (case make_f fl of None \<Rightarrow> [] | Some m \<Rightarrow> if m \<noteq> [] then [m] else [])
            @ (case model_f fl of None \<Rightarrow> [] | Some m \<Rightarrow> if m \<noteq> [] then [m] else []);
          joined = join_space parts
      in if joined = [] then fallback else joined)"

definition vin_text :: "Flip \<Rightarrow> jsstring" where
  "vin_text fl =
     (case vin fl of None \<Rightarrow> js ''Not provided''
      | Some v \<Rightarrow> if v \<noteq> [] then v else js ''Not provided'')"

definition miles_text :: "env \<Rightarrow> Flip \<Rightarrow> jsstring" where
  "miles_text e fl =
     (case miles fl of None \<Rightarrow> js ''Not provided''
      | Some m \<Rightarrow> if truthy m then localeNumber e m else js ''Not provided'')"

text \<open>A truthy optional string, and the date column of an expense row.\<close>

definition present :: "jsstring option \<Rightarrow> bool" where
  "present x = (case x of None \<Rightarrow> False | Some s \<Rightarrow> s \<noteq> [])"

definition item_date :: "env \<Rightarrow> LineItem \<Rightarrow> jsstring \<Rightarrow> jsstring" where
  "item_date e item fallback =
     (case date_li item of None \<Rightarrow> fallback
      | Some d \<Rightarrow> if d \<noteq> [] then localeDate e d else fallback)"

subsection \<open>generateTaxExportPDF\<close>

definition expense_row :: "env \<Rightarrow> jsstring \<Rightarrow> LineItem \<Rightarrow> jsstring" where
  "expense_row e label item =
     label @ tab @ tab @ title_li item @ tab @ tab @ formatCurrency e (amount_li item)
       @ tab @ tab @ item_date e item (js ''Not specified'') @ nl"

text \<open>The two loops that list the line items: by category, then the items without one.\<close>

definition expense_rows :: "env \<Rightarrow> LineItem list \<Rightarrow> jsstring \<Rightarrow> jsstring" where
  "expense_rows e items content =
     (let content1 =
            foldl (\<lambda>content c.
                     (let categoryItems = filter (\<lambda>item. category item = Some c) items
                      in if 0 < length categoryItems
                         then foldl (\<lambda>content item. content @ expense_row e (category_name c) item)
                                content categoryItems
                         else content))
              content categories;
          uncategorizedItems = filter (\<lambda>item. category item = None) items
      in foldl (\<lambda>content item. content @ expense_row e (js ''misc'') item)
           content1 uncategorizedItems)"

text \<open>The loop of the summary by category, and the line of the items without one.\<close>

definition category_totals :: "env \<Rightarrow> LineItem list \<Rightarrow> jsstring \<Rightarrow> jsstring" where
  "category_totals e items content =
     (let content1 =
            foldl (\<lambda>content c.
                     (let categoryItems = filter (\<lambda>item. category item = Some c) items
                      in if 0 < length categoryItems
                         then (let categoryTotal =
                                     foldl (\<lambda>sum item. num_add sum (amount_li item)) (Fin 0)
                                       categoryItems
                               in content @ capitalize (category_name c) @ js '': ''
                                    @ formatCurrency e categoryTotal @ nl)
                         else content))
              content categories;
          uncategorizedItems = filter (\<lambda>item. category item = None) items;
          uncategorizedTotal =
            foldl (\<lambda>sum item. num_add sum (amount_li item)) (Fin 0) uncategorizedItems
      in if num_less (Fin 0) uncategorizedTotal
         then content1 @ js ''Miscellaneous: '' @ formatCurrency e uncategorizedTotal @ nl
         else content1)"

definition generateTaxExportPDF :: "env \<Rightarrow> TaxExportData \<Rightarrow> jsstring" where
  "generateTaxExportPDF e d =
     (let fl = flip d; t = totals d;
          name = displayName e fl (js ''Vehicle Flip'');
          content = js ''TAX REPORT - VEHICLE FLIP'' @ nl;
          content = content @ js ''Generated: '' @ today e @ nl;
          content = content @ js ''Tax Year: '' @ numberText e (taxYear d) @ nl;
          content = content @ js ''================================='' @ nl @ nl;
          content = content @ js ''VEHICLE INFORMATION:'' @ nl;
          content = content @ js ''Vehicle: '' @ name @ nl;
          content = content @ js ''VIN: '' @ vin_text fl @ nl;
          content = content @ js ''Miles: '' @ miles_text e fl @ nl;
          content = content @ js ''Purchase Date: '' @ localeDate e (created_at fl) @ nl;
          content =
            (case sold_date fl of
               None \<Rightarrow> content
             | Some sd \<Rightarrow>
                 if sd \<noteq> [] then content @ js ''Sale Date: '' @ localeDate e sd @ nl
                 else content);
          content = content @ nl;
          content = content @ js ''FINANCIAL SUMMARY:'' @ nl;
          content = content @ js ''Purchase Price: '' @ formatCurrency e (buy_price fl) @ nl;
          content =
            content @ js ''Sale Price: '' @ formatCurrency e (opt_or_zero (sell_price fl)) @ nl;
          content = content @ js ''Total Expenses: '' @ formatCurrency e (totalCost t) @ nl;
          content =
            content @ js ''Total Investment: ''
              @ formatCurrency e (num_add (buy_price fl) (totalCost t)) @ nl;
          content = content @ js ''Gross Profit/Loss: '' @ formatCurrency e (profit t) @ nl;
          content = content @ js ''ROI: '' @ toFixed2 e (num_mul (roi t) (Fin 100)) @ js ''%'' @ nl;
          content = content @ nl;
          shortTermGain = (if present (sold_date fl) then profit t else Fin 0);
          content = content @ js ''TAX IMPLICATIONS:'' @ nl;
          content =
            content
              @ js ''Classification: Short-term Capital Gain/Loss (assuming held < 1 year)'' @ nl;
          content = content @ js ''Taxable Amount: '' @ formatCurrency e shortTermGain @ nl;
          content = content @ js ''Note: Consult your tax professional for proper treatment'' @ nl;
          content = content @ nl;
          content = content @ js ''DETAILED EXPENSES:'' @ nl;
          content =
            content @ js ''Category'' @ tab @ tab @ js ''Description'' @ tab @ tab @ tab
              @ js ''Amount'' @ tab @ tab @ js ''Date'' @ nl;
          content = content @ replicate 80 61 @ nl;
          content =
            content @ js ''Purchase'' @ tab @ tab @ js ''Vehicle Purchase'' @ tab @ tab
              @ formatCurrency e (buy_price fl) @ tab @ localeDate e (created_at fl) @ nl;
          content = expense_rows e (lineItems d) content;
          content = content @ replicate 80 61 @ nl;
          content = content @ js ''TOTAL EXPENSES: '' @ formatCurrency e (totalCost t) @ nl;
          content = content @ nl;
          content = content @ js ''EXPENSE SUMMARY BY CATEGORY:'' @ nl;
          content = category_totals e (lineItems d) content;
          content = content @ nl;
          content = content @ js ''IMPORTANT NOTES:'' @ nl;
          content = content @ js ''- This report is for tax preparation purposes'' @ nl;
          content = content @ js ''- Consult with a qualified tax professional'' @ nl;
          content = content @ js ''- Keep all receipts and supporting documentation'' @ nl;
          content =
            content
              @ js ''- Vehicle flipping may require business license in some jurisdictions'' @ nl;
          content =
            content @ js ''- Consider quarterly estimated tax payments for significant gains'' @ nl
      in content)"

subsection \<open>generateAllFlipsTaxReport\<close>

definition bullet_row :: "env \<Rightarrow> LineItem \<Rightarrow> jsstring" where
  "bullet_row e item =
     js ''  '' @ [8226] @ js '' '' @ title_li item @ js '': '' @ formatCurrency e (amount_li item)
       @ js '' ('' @ item_date e item (localeDate e (created_at_li item)) @ js '')'' @ nl"

text \<open>The expense breakdown of one vehicle.\<close>

definition expense_breakdown :: "env \<Rightarrow> LineItem list \<Rightarrow> jsstring \<Rightarrow> jsstring" where
  "expense_breakdown e items content =
     (if 0 < length items
      then (let content = content @ nl @ js ''EXPENSE BREAKDOWN:'' @ nl;
                content =
                  foldl (\<lambda>content c.
                           (let categoryItems = filter (\<lambda>item. category item = Some c) items
                            in if 0 < length categoryItems
                               then (let categoryTotal =
                                           foldl (\<lambda>sum item. num_add sum (amount_li item)) (Fin 0)
                                             categoryItems;
                                         content =
                                           content @ nl @ map upper_unit (category_name c)
                                             @ js '': '' @ formatCurrency e categoryTotal @ nl
                                     in foldl (\<lambda>content item. content @ bullet_row e item)
                                          content categoryItems)
                               else content))
                    content categories;
                uncategorized = filter (\<lambda>item. category item = None) items
            in if 0 < length uncategorized
               then (let uncategorizedTotal =
                           foldl (\<lambda>sum item. num_add sum (amount_li item)) (Fin 0) uncategorized;
                         content =
                           content @ nl @ js ''MISCELLANEOUS: ''
                             @ formatCurrency e uncategorizedTotal @ nl
                     in foldl (\<lambda>content item. content @ bullet_row e item) content uncategorized)
               else content)
      else content)"

text \<open>The body of \<open>flips.forEach((flipData, index) => ...)\<close>.\<close>

definition vehicle_section :: "env \<Rightarrow> jsstring \<Rightarrow> FlipData \<times> nat \<Rightarrow> jsstring" where
  "vehicle_section e content p =
     (case p of (flipData, index) \<Rightarrow>
        (let fl = flip flipData; t = totals flipData;
             number = numberText e (Fin (of_nat (index + 1)));
             name = displayName e fl (js ''Vehicle '' @ number);
             content = content @ nl @ js ''VEHICLE '' @ number @ js '': '' @ name @ nl;
             content = content @ replicate 50 45 @ nl;
             content = content @ js ''Purchase Date: '' @ localeDate e (created_at fl) @ nl;
             content =
               content @ js ''Sale Date: ''
                 @ (case sold_date fl of
                      None \<Rightarrow> js ''Not sold''
                    | Some sd \<Rightarrow> if sd \<noteq> [] then localeDate e sd else js ''Not sold'')
                 @ nl;
             content = content @ js ''VIN: '' @ vin_text fl @ nl;
             content = content @ js ''Miles: '' @ miles_text e fl @ nl;
             content = content @ nl @ js ''FINANCIALS:'' @ nl;
             content = content @ js ''Purchase Price: '' @ formatCurrency e (buy_price fl) @ nl;
             content =
               content @ js ''Sale Price: '' @ formatCurrency e (opt_or_zero (sell_price fl)) @ nl;
             content = content @ js ''Operating Expenses: '' @ formatCurrency e (totalCost t) @ nl;
             content =
               content @ js ''Total Investment: ''
                 @ formatCurrency e (num_add (buy_price fl) (totalCost t)) @ nl;
             content = content @ js ''Profit/Loss: '' @ formatCurrency e (profit t) @ nl;
             content =
               content @ js ''ROI: '' @ toFixed2 e (num_mul (roi t) (Fin 100)) @ js ''%'' @ nl;
             content = expense_breakdown e (lineItems flipData) content;
             content = content @ nl @ replicate 80 61 @ nl
         in content))"

text \<open>
  \<open>allExpenses\<close>, a \<open>Record<string, number>\<close>: the properties in the order they were
  created, which is the order \<open>Object.entries\<close> lists them in (no category name is an array
  index). \<open>record_add r k v\<close> is \<open>r[k] = (r[k] || 0) + v\<close>.
\<close>

fun record_add :: "(jsstring \<times> number) list \<Rightarrow> jsstring \<Rightarrow> number \<Rightarrow> (jsstring \<times> number) list" where
  "record_add [] k v = [(k, num_add (Fin 0) v)]"
| "record_add ((k', t) # r) k v =
     (if k' = k then (k', num_add (or_zero t) v) # r else (k', t) # record_add r k v)"

definition expense_key :: "LineItem \<Rightarrow> jsstring" where
  "expense_key item = (case category item of None \<Rightarrow> js ''misc'' | Some c \<Rightarrow> category_name c)"

definition allExpenses :: "FlipData list \<Rightarrow> (jsstring \<times> number) list" where
  "allExpenses fds =
     foldl (\<lambda>r fd. foldl (\<lambda>r item. record_add r (expense_key item) (amount_li item)) r (lineItems fd))
       [] fds"

definition combined_summary :: "env \<Rightarrow> FlipData list \<Rightarrow> jsstring \<Rightarrow> jsstring" where
  "combined_summary e fds content =
     foldl (\<lambda>content (k, total). content @ capitalize k @ js '': '' @ formatCurrency e total @ nl)
       content (allExpenses fds)"

definition generateAllFlipsTaxReport :: "env \<Rightarrow> AllFlipsTaxData \<Rightarrow> jsstring" where
  "generateAllFlipsTaxReport e d =
     (let s = summary d;
          content = js ''COMPLETE TAX REPORT - ALL VEHICLE FLIPS'' @ nl;
          content = content @ js ''Generated: '' @ today e @ nl;
          content = content @ js ''Tax Year: '' @ numberText e (taxYear_all d) @ nl;
          content =
            content @ js ''================================================================='' @ nl
              @ nl;
          content = content @ js ''EXECUTIVE SUMMARY:'' @ nl;
          content =
            content @ js ''Total Vehicles Flipped: '' @ numberText e (Fin (of_nat (totalFlips s)))
              @ nl;
          content = content @ js ''Total Sales Revenue: '' @ formatCurrency e (totalSales s) @ nl;
          content = content @ js ''Total Purchase Cost: '' @ formatCurrency e (totalPurchases s) @ nl;
          content =
            content @ js ''Total Operating Expenses: '' @ formatCurrency e (totalExpenses s) @ nl;
          content = content @ js ''Net Gain/Loss: '' @ formatCurrency e (netGainLoss s) @ nl;
          content = content @ nl;
          content = content @ js ''TAX TREATMENT:'' @ nl;
          content = content @ js ''Business Activity: Vehicle Flipping/Resale'' @ nl;
          content =
            content
              @ js ''Classification: Short-term Capital Gains (vehicles typically held < 1 year)''
              @ nl;
          content =
            content @ js ''Schedule: Report on Schedule D (Capital Gains and Losses)'' @ nl;
          content =
            content
              @ js ''Self-Employment: May require Schedule C if this is a business activity'' @ nl;
          content = content @ nl;
          content = content @ js ''DETAILED VEHICLE-BY-VEHICLE BREAKDOWN:'' @ nl;
          content = content @ replicate 80 61 @ nl;
          content = foldl (vehicle_section e) content (zip (flips d) [0..<length (flips d)]);
          content = content @ nl @ js ''COMBINED EXPENSE SUMMARY BY CATEGORY:'' @ nl;
          content = combined_summary e (flips d) content;
          content = content @ nl @ js ''TAX PREPARATION CHECKLIST:'' @ nl;
          content = content @ [9633] @ js '' Keep all purchase receipts and contracts'' @ nl;
          content = content @ [9633] @ js '' Keep all sale receipts and contracts'' @ nl;
          content = content @ [9633] @ js '' Keep all receipts for parts, labor, and fees'' @ nl;
          content =
            content @ [9633]
              @ js '' Document any business mileage related to vehicle viewing/transport'' @ nl;
          content =
            content @ [9633] @ js '' Consider if this activity requires a business license'' @ nl;
          content =
            content @ [9633]
              @ js '' Determine if you need to make quarterly estimated tax payments'' @ nl;
          content =
            content @ [9633] @ js '' Consult with a tax professional for proper classification''
              @ nl;
          content =
            content @ [9633]
              @ js '' Consider Schedule C filing if this is a regular business activity'' @ nl;
          content = content @ nl @ js ''IMPORTANT TAX NOTES:'' @ nl;
          content = content @ [8226] @ js '' This report is for tax preparation purposes only'' @ nl;
          content =
            content @ [8226]
              @ js '' Vehicle flipping may be considered business income vs. capital gains'' @ nl;
          content = content @ [8226] @ js '' Consult with a qualified tax professional'' @ nl;
          content =
            content @ [8226] @ js '' Keep detailed records and receipts for all transactions'' @ nl;
          content = content @ [8226] @ js '' Consider sales tax obligations in your state'' @ nl;
          content =
            content @ [8226]
              @ js '' Some states require dealer licenses for multiple vehicle sales'' @ nl;
          content =
            content @ [8226] @ js '' Report all gains - the IRS may have records of vehicle sales''
              @ nl
      in content)"


section \<open>Example data\<close>

definition example_flip :: Flip where
  "example_flip =
     \<lparr>id_f = 1, year = Some (Fin 2015), make_f = Some (js ''Honda''), model_f = Some (js ''Civic''),
      vin = None, miles = Some (Fin 98000), buy_price = Fin 3500, sell_price = Some (Fin 6200),
      sold_date = None, created_at = js ''2024-03-01T10:00:00.000Z'',
      updated_at = js ''2024-03-01T10:00:00.000Z''\<rparr>"

definition example_store :: store where
  "example_store =
     \<lparr>getFlipById = (\<lambda>i. if i = 1 then Some example_flip else None),
      getLineItemsByFlip = (\<lambda>i. [])\<rparr>"

definition example_sheet :: FlipSheet where
  "example_sheet =
     \<lparr>sheet_flip = Some example_flip,
      sheet_totals = \<lparr>totalCost = Fin 0, profit = Fin 2700, roi = num_div (Fin 2700) (Fin 3500)\<rparr>,
      buyPrice = js ''3500'', whatIfSellPrice = js ''7000''\<rparr>"

section \<open>Notions of the claims\<close>

text \<open>
  Of a matched numeric segment: some operand that follows a \<open>/\<close> in one of its additive
  terms parses to zero. And the numeric segment of the first grammar that matches.
\<close>

fun zero_divisor :: "jsstring list \<Rightarrow> bool" where
  "zero_divisor (op # t # tokens) = ((op = [47] \<and> parseFloat t = Fin 0) \<or> zero_divisor tokens)"
| "zero_divisor tokens = False"

definition divides_by_zero :: "jsstring \<Rightarrow> bool" where
  "divides_by_zero seg =
     list_ex (\<lambda>term. zero_divisor (tl (split_keep (\<lambda>c. c = 42 \<or> c = 47) term)))
       (split_keep (\<lambda>c. c = 43 \<or> c = 45) (filter (\<lambda>c. \<not> is_space c) seg))"

definition matched_segment :: "jsstring \<Rightarrow> jsstring option" where
  "matched_segment input =
     (let trimmed = trim input
      in if trimmed = [] then None
         else (case dollarMatch trimmed of
                 Some (g1, g2) \<Rightarrow> Some (trim g1)
               | None \<Rightarrow>
                   (case numberMatch trimmed of
                      Some (g1, g2) \<Rightarrow> Some (trim g1)
                    | None \<Rightarrow>
                        (case simpleMatch trimmed of
                           Some (g1, g2) \<Rightarrow> Some (trim g1)
                         | None \<Rightarrow> None))))"

text \<open>
  The arithmetic expressions of the quick entry, as the specification describes them:
  products of decimal literals joined by \<open>*\<close> and \<open>/\<close>, joined in turn by \<open>+\<close> and \<open>-\<close>.
  A literal is digits with an optional fraction (\<open>12\<close>, \<open>12.\<close>, \<open>12.5\<close>, \<open>.5\<close>). The value of
  an expression is defined on this syntax, by the words of the specification: every product
  folded from the left, a division by zero failing; the products added and subtracted from
  the left, the first one added to 0.
\<close>

datatype mulop = Times | Divide

datatype addop = Plus | Minus

datatype literal = Literal (whole: jsstring) (fraction: "jsstring option")

type_synonym product = "literal \<times> (mulop \<times> literal) list"

type_synonym expression = "product \<times> (addop \<times> product) list"

definition wf_literal :: "literal \<Rightarrow> bool" where
  "wf_literal l =
     (list_all is_digit (whole l)
      \<and> (case fraction l of
            None \<Rightarrow> whole l \<noteq> []
          | Some f \<Rightarrow> list_all is_digit f \<and> (whole l \<noteq> [] \<or> f \<noteq> [])))"

definition wf_product :: "product \<Rightarrow> bool" where
  "wf_product p = (wf_literal (fst p) \<and> list_all (\<lambda>(b, l). wf_literal l) (snd p))"

definition wf_expression :: "expression \<Rightarrow> bool" where
  "wf_expression e = (wf_product (fst e) \<and> list_all (\<lambda>(b, p). wf_product p) (snd e))"

definition render_literal :: "literal \<Rightarrow> jsstring" where
  "render_literal l = whole l @ (case fraction l of None \<Rightarrow> [] | Some f \<Rightarrow> 46 # f)"

definition mulop_char :: "mulop \<Rightarrow> nat" where
  "mulop_char b = (case b of Times \<Rightarrow> 42 | Divide \<Rightarrow> 47)"

definition addop_char :: "addop \<Rightarrow> nat" where
  "addop_char b = (case b of Plus \<Rightarrow> 43 | Minus \<Rightarrow> 45)"

definition render_product :: "product \<Rightarrow> jsstring" where
  "render_product p =
     render_literal (fst p) @ concat (map (\<lambda>(b, l). mulop_char b # render_literal l) (snd p))"

definition render_expression :: "expression \<Rightarrow> jsstring" where
  "render_expression e =
     render_product (fst e) @ concat (map (\<lambda>(b, p). addop_char b # render_product p) (snd e))"

definition literal_value :: "literal \<Rightarrow> number" where
  "literal_value l =
     rnd (of_nat (digits_value (whole l))
          + (case fraction l of None \<Rightarrow> 0
             | Some f \<Rightarrow> of_nat (digits_value f) / 10 ^ length f))"

fun muldiv_step :: "number option \<Rightarrow> mulop \<times> literal \<Rightarrow> number option" where
  "muldiv_step None x = None"
| "muldiv_step (Some a) (Times, l) = Some (num_mul a (literal_value l))"
| "muldiv_step (Some a) (Divide, l) =
     (if literal_value l = Fin 0 then None else Some (num_div a (literal_value l)))"

definition product_value :: "product \<Rightarrow> number option" where
  "product_value p = foldl muldiv_step (Some (literal_value (fst p))) (snd p)"

fun addsub_step :: "number option \<Rightarrow> addop \<times> product \<Rightarrow> number option" where
  "addsub_step None x = None"
| "addsub_step (Some a) (b, p) =
     (case product_value p of
        None \<Rightarrow> None
      | Some v \<Rightarrow> Some (case b of Plus \<Rightarrow> num_add a v | Minus \<Rightarrow> num_sub a v))"

definition expression_value :: "expression \<Rightarrow> number option" where
  "expression_value e = foldl addsub_step (Some (Fin 0)) ((Plus, fst e) # snd e)"


text \<open>The larger of two numbers, neither of them NaN; and three flips with the profits 100, -50 and 30.\<close>

definition num_max :: "number \<Rightarrow> number \<Rightarrow> number" where
  "num_max x y = (if num_less x y then y else x)"

definition example_flips :: "Flip list" where
  "example_flips =
     [example_flip\<lparr>id_f := 1, buy_price := Fin 100, sell_price := Some (Fin 200)\<rparr>,
      example_flip\<lparr>id_f := 2, buy_price := Fin 100, sell_price := Some (Fin 50)\<rparr>,
      example_flip\<lparr>id_f := 3, buy_price := Fin 70, sell_price := Some (Fin 100)\<rparr>]"

definition example_store3 :: store where
  "example_store3 =
     \<lparr>getFlipById = (\<lambda>i. if 1 \<le> i \<and> i \<le> 3 then Some (example_flips ! (i - 1)) else None),
      getLineItemsByFlip = (\<lambda>i. [])\<rparr>"

text \<open>
  Of the itemized listing: the rank of a category in the fixed order, the label of a row,
  the amounts of a category in the order of the input, the listing as the rows of the
  stably sorted items, the summary as one line per category that has an item, and two
  texts occurring in a third in this order.
\<close>

fun category_rank :: "category option \<Rightarrow> nat" where
  "category_rank (Some Parts) = 0"
| "category_rank (Some Labor) = 1"
| "category_rank (Some Fees) = 2"
| "category_rank (Some Misc) = 3"
| "category_rank None = 4"

definition row_label :: "category option \<Rightarrow> jsstring" where
  "row_label c = (case c of None \<Rightarrow> js ''misc'' | Some k \<Rightarrow> category_name k)"

definition category_amounts :: "category option \<Rightarrow> LineItem list \<Rightarrow> number list" where
  "category_amounts c items = map amount_li (filter (\<lambda>item. category item = c) items)"

definition listing_text :: "env \<Rightarrow> LineItem list \<Rightarrow> jsstring" where
  "listing_text e items =
     concat (map (\<lambda>item. expense_row e (row_label (category item)) item)
       (sort_key (\<lambda>item. category_rank (category item)) items))"

definition summary_text :: "env \<Rightarrow> LineItem list \<Rightarrow> jsstring" where
  "summary_text e items =
     concat (map (\<lambda>c. if list_ex (\<lambda>item. category item = Some c) items
                       then capitalize (category_name c) @ js '': ''
                            @ formatCurrency e (sum_left (category_amounts (Some c) items)) @ nl
                       else [])
        categories)
     @ (if num_less (Fin 0) (sum_left (category_amounts None items))
        then js ''Miscellaneous: '' @ formatCurrency e (sum_left (category_amounts None items)) @ nl
        else [])"

definition in_order :: "jsstring \<Rightarrow> jsstring \<Rightarrow> jsstring \<Rightarrow> bool" where
  "in_order a b t = (\<exists>pre mid post. t = pre @ a @ mid @ b @ post)"

section \<open>Properties of the rounding\<close>

lemma pow2_powi: "pow2 k = 2 powi k"
  by (simp add: pow2_def power_int_def field_simps)

lemma pow2_pos: "0 < pow2 k"
  by (simp add: pow2_def)

lemma pow2_add: "pow2 (j + k) = pow2 j * pow2 k"
  by (simp add: pow2_powi power_int_add)

lemma pow2_mono: "j \<le> k \<Longrightarrow> pow2 j \<le> pow2 k"
  by (simp add: pow2_powi power_int_increasing)

lemma pow2_strict_mono: "j < k \<Longrightarrow> pow2 j < pow2 k"
  by (simp add: pow2_powi power_int_strict_increasing)

lemma pow2_less_cancel: "pow2 j < pow2 k \<Longrightarrow> j < k"
  using pow2_mono [of k j] by (cases "j < k") auto

lemma pow2_le_cancel: "pow2 j \<le> pow2 k \<Longrightarrow> j \<le> k"
  using pow2_strict_mono [of k j] by (cases "j \<le> k") auto

lemma pow2_neg: "pow2 (- k) = 1 / pow2 k"
  using pow2_add [of k "- k"] pow2_pos [of k] by (simp add: pow2_def field_simps)

lemma pow2_diff: "pow2 (j - k) = pow2 j / pow2 k"
  using pow2_add [of j "- k"] by (simp add: pow2_neg)

lemma pow2_of_nat: "0 \<le> k \<Longrightarrow> pow2 k = rat_of_int (2 ^ nat k)"
  by (simp add: pow2_def)

lemma floor_bitlen_bounds:
  assumes "1 \<le> b"
  shows "pow2 (bitlen \<lfloor>b\<rfloor> - 1) \<le> b \<and> b < pow2 (bitlen \<lfloor>b\<rfloor>) \<and> 1 \<le> bitlen \<lfloor>b\<rfloor>"
proof -
  define x where "x = \<lfloor>b\<rfloor>"
  have xpos: "0 < x" using assms by (simp add: x_def)
  have b1: "1 \<le> bitlen x"
    using xpos bitlen_eq_zero_iff [of x] bitlen_nonneg [of x] by linarith
  from bitlen_bounds [OF xpos]
  have lo: "(2::int) ^ nat (bitlen x - 1) \<le> x" and hi: "x < 2 ^ nat (bitlen x)" by auto
  have "rat_of_int (2 ^ nat (bitlen x - 1)) \<le> rat_of_int x"
    using lo by (simp only: of_int_le_iff)
  also have "\<dots> \<le> b" by (simp add: x_def)
  finally have l: "pow2 (bitlen x - 1) \<le> b" using b1 by (simp add: pow2_def)
  have "x + 1 \<le> 2 ^ nat (bitlen x)" using hi by simp
  then have "rat_of_int (x + 1) \<le> rat_of_int (2 ^ nat (bitlen x))"
    by (simp only: of_int_le_iff)
  moreover have "b < rat_of_int (x + 1)" using floor_correct [of b] by (simp add: x_def)
  ultimately have h: "b < pow2 (bitlen x)" using b1 by (simp add: pow2_def)
  show ?thesis using l h b1 by (simp add: x_def)
qed

lemma ilog2_bounds:
  assumes "0 < a"
  shows "pow2 (ilog2 a) \<le> a \<and> a < pow2 (ilog2 a + 1)"
proof (cases "1 \<le> a")
  case True
  then show ?thesis using floor_bitlen_bounds [OF True] by (simp add: ilog2_def)
next
  case False
  define b where "b = 1 / a"
  have bgt: "1 < b" using False assms by (simp add: b_def)
  define k where "k = bitlen \<lfloor>b\<rfloor> - 1"
  from floor_bitlen_bounds [of b] bgt
  have l: "pow2 k \<le> b" and h: "b < pow2 (k + 1)" by (auto simp: k_def)
  have a_eq: "a = 1 / b" using assms by (simp add: b_def)
  have il: "ilog2 a = (if b = pow2 k then - k else - (k + 1))"
    using False by (simp add: ilog2_def b_def k_def Let_def)
  show ?thesis
  proof (cases "b = pow2 k")
    case True
    have "a = pow2 (- k)" using True a_eq by (simp add: pow2_neg)
    moreover have "pow2 (- k) < pow2 (- k + 1)" by (rule pow2_strict_mono) simp
    ultimately show ?thesis using il True by simp
  next
    case nb: False
    have lt: "pow2 k < b" using l nb by simp
    have "pow2 (- (k + 1)) \<le> a"
      using h bgt pow2_pos [of "k + 1"] unfolding a_eq pow2_neg
      by (simp add: field_simps)
    moreover have "a < pow2 (- k)"
      using lt bgt pow2_pos [of k] unfolding a_eq pow2_neg
      by (simp add: field_simps)
    ultimately show ?thesis using il nb by simp
  qed
qed

lemma ilog2_unique:
  assumes "pow2 e \<le> a" "a < pow2 (e + 1)"
  shows "ilog2 a = e"
proof -
  have apos: "0 < a" using assms(1) pow2_pos [of e] by simp
  from ilog2_bounds [OF apos]
  have l: "pow2 (ilog2 a) \<le> a" and h: "a < pow2 (ilog2 a + 1)" by auto
  have "pow2 e < pow2 (ilog2 a + 1)" using assms(1) h by simp
  then have 1: "e < ilog2 a + 1" by (rule pow2_less_cancel)
  have "pow2 (ilog2 a) < pow2 (e + 1)" using assms(2) l by simp
  then have 2: "ilog2 a < e + 1" by (rule pow2_less_cancel)
  show ?thesis using 1 2 by simp
qed

lemma round_half_even_of_int: "round_half_even (of_int z) = z"
  by (simp add: round_half_even_def)

lemma round_half_even_ge_floor: "\<lfloor>x\<rfloor> \<le> round_half_even x"
  by (simp add: round_half_even_def Let_def)

lemma round_half_even_le: "round_half_even x \<le> \<lfloor>x\<rfloor> + 1"
  by (simp add: round_half_even_def Let_def)

lemma quantum_pos: "0 < quantum a"
  by (simp add: quantum_def pow2_pos)

lemma rnd_on_grid:
  assumes "x \<noteq> 0" "\<bar>x\<bar> / quantum \<bar>x\<bar> = of_int z" "\<bar>x\<bar> < pow2 1024"
  shows "rnd x = Fin x"
proof -
  have "of_int z * quantum \<bar>x\<bar> = \<bar>x\<bar>"
    using assms(2) quantum_pos [of "\<bar>x\<bar>"] by (simp add: field_simps)
  then have "of_int (round_half_even (\<bar>x\<bar> / quantum \<bar>x\<bar>)) * quantum \<bar>x\<bar> = \<bar>x\<bar>"
    using assms(2) by (simp add: round_half_even_of_int)
  then have "rnd x = (if pow2 1024 \<le> \<bar>x\<bar> then (if 0 < x then PInf else NInf)
       else Fin (if 0 < x then \<bar>x\<bar> else - \<bar>x\<bar>))"
    using assms(1) unfolding rnd_def Let_def by (simp only: if_False)
  then show ?thesis using assms(3) by simp
qed

lemma rnd_zero [simp]: "rnd 0 = Fin 0"
  by (simp add: rnd_def)

lemma rnd_of_int:
  assumes "\<bar>n\<bar> \<le> 2 ^ 53"
  shows "rnd (of_int n) = Fin (of_int n)"
proof (cases "n = 0")
  case True
  then show ?thesis by (simp add: rnd_def)
next
  case False
  define a where "a = rat_of_int \<bar>n\<bar>"
  have a_abs: "\<bar>rat_of_int n\<bar> = a" by (simp add: a_def)
  have a1: "1 \<le> a" using False by (simp add: a_def)
  have "rat_of_int \<bar>n\<bar> \<le> rat_of_int (2 ^ 53)" using assms by (simp only: of_int_le_iff)
  then have a53: "a \<le> pow2 53" by (simp add: a_def pow2_def)
  define e where "e = ilog2 a"
  have apos: "0 < a" using a1 by simp
  from ilog2_bounds [OF apos]
  have l: "pow2 e \<le> a" and h: "a < pow2 (e + 1)" by (auto simp: e_def)
  have "pow2 0 < pow2 (e + 1)" using a1 h by (simp add: pow2_def)
  then have e0: "0 \<le> e" using pow2_less_cancel [of 0 "e + 1"] by simp
  have "pow2 e \<le> pow2 53" using l a53 by simp
  then have e53: "e \<le> 53" by (rule pow2_le_cancel)
  have q: "quantum a = pow2 (e - 52)" using e0 by (simp add: quantum_def e_def)
  have "\<exists>z. a / quantum a = rat_of_int z"
  proof (cases "e \<le> 52")
    case True
    have "a / quantum a = a * pow2 (52 - e)"
      using pow2_neg [of "e - 52"] by (simp add: q)
    also have "\<dots> = rat_of_int (\<bar>n\<bar> * 2 ^ nat (52 - e))"
      using True by (simp add: a_def pow2_def)
    finally show ?thesis by blast
  next
    case False
    then have e: "e = 53" using e53 by simp
    have a_eq: "a = pow2 53" using l a53 e by simp
    have "a / quantum a = a / pow2 (53 - 52)" by (simp only: q e)
    also have "\<dots> = pow2 53 / pow2 (53 - 52)" by (simp only: a_eq)
    also have "\<dots> = pow2 (53 - (53 - 52))" by (simp only: pow2_diff)
    also have "\<dots> = rat_of_int (2 ^ 52)" by (simp add: pow2_def)
    finally show ?thesis by blast
  qed
  then obtain z where z: "\<bar>rat_of_int n\<bar> / quantum \<bar>rat_of_int n\<bar> = rat_of_int z"
    unfolding a_abs by blast
  have "pow2 53 < pow2 1024" by (rule pow2_strict_mono) simp
  then have lt: "\<bar>rat_of_int n\<bar> < pow2 1024" using a53 unfolding a_abs by simp
  from False have nz: "rat_of_int n \<noteq> 0" by simp
  show ?thesis by (rule rnd_on_grid [OF nz z lt])
qed

lemma rnd_numeral [simp]:
  "numeral k \<le> (9007199254740992::int) \<Longrightarrow> rnd (numeral k) = Fin (numeral k)"
  using rnd_of_int [of "numeral k"] by simp

lemma rnd_neg_numeral [simp]:
  "numeral k \<le> (9007199254740992::int) \<Longrightarrow> rnd (- numeral k) = Fin (- numeral k)"
  using rnd_of_int [of "- numeral k"] by simp

lemma rnd_one [simp]: "rnd 1 = Fin 1"
  using rnd_of_int [of 1] by simp

lemma rnd_overflow:
  assumes "pow2 1024 \<le> x"
  shows "rnd x = PInf"
proof -
  have xpos: "0 < x" using assms pow2_pos [of 1024] by simp
  define e where "e = ilog2 x"
  from ilog2_bounds [OF xpos]
  have l: "pow2 e \<le> x" and h: "x < pow2 (e + 1)" by (auto simp: e_def)
  have "pow2 1024 < pow2 (e + 1)" using assms h by simp
  then have e1024: "1024 \<le> e" using pow2_less_cancel [of 1024 "e + 1"] by simp
  have q: "quantum x = pow2 (e - 52)" using e1024 by (simp add: quantum_def e_def)
  have qpos: "0 < quantum x" by (rule quantum_pos)
  have "pow2 52 = pow2 e / quantum x" using pow2_diff [of e "e - 52"] by (simp add: q)
  also have "\<dots> \<le> x / quantum x" using l qpos by (simp add: divide_right_mono)
  finally have "rat_of_int (2 ^ 52) \<le> x / quantum x" by (simp add: pow2_def)
  then have "2 ^ 52 \<le> \<lfloor>x / quantum x\<rfloor>" by (simp only: le_floor_iff)
  then have "2 ^ 52 \<le> round_half_even (x / quantum x)"
    by (rule order_trans [OF _ round_half_even_ge_floor])
  then have "rat_of_int (2 ^ 52) \<le> rat_of_int (round_half_even (x / quantum x))"
    by (simp only: of_int_le_iff)
  then have "pow2 52 * quantum x \<le> rat_of_int (round_half_even (x / quantum x)) * quantum x"
    using qpos by (simp add: pow2_def)
  moreover have "pow2 52 * quantum x = pow2 e" using pow2_add [of 52 "e - 52"] by (simp add: q)
  moreover have "pow2 1024 \<le> pow2 e" using e1024 by (rule pow2_mono)
  ultimately have "pow2 1024 \<le> rat_of_int (round_half_even (x / quantum x)) * quantum x"
    by simp
  then show ?thesis using xpos by (simp add: rnd_def Let_def)
qed


lemma rnd_cases:
  assumes "x \<noteq> 0"
  shows "rnd x =
     (if pow2 1024 \<le> of_int (round_half_even (\<bar>x\<bar> / quantum \<bar>x\<bar>)) * quantum \<bar>x\<bar>
      then (if 0 < x then PInf else NInf)
      else Fin (if 0 < x then of_int (round_half_even (\<bar>x\<bar> / quantum \<bar>x\<bar>)) * quantum \<bar>x\<bar>
                else - (of_int (round_half_even (\<bar>x\<bar> / quantum \<bar>x\<bar>)) * quantum \<bar>x\<bar>)))"
  using assms unfolding rnd_def Let_def by (simp only: if_False)

lemma scaled_below_pow2_53:
  assumes "0 < a"
  shows "a / quantum a < pow2 53"
proof -
  define E where "E = max (ilog2 a) (- 1022)"
  have q: "quantum a = pow2 (E - 52)" by (simp add: quantum_def E_def)
  from ilog2_bounds [OF assms] have "a < pow2 (ilog2 a + 1)" by simp
  also have "\<dots> \<le> pow2 (E + 1)" by (rule pow2_mono) (simp add: E_def)
  finally have "a / quantum a < pow2 (E + 1) / quantum a"
    using quantum_pos [of a] by (simp add: divide_strict_right_mono)
  also have "\<dots> = pow2 (E + 1 - (E - 52))" by (simp only: q pow2_diff)
  finally show ?thesis by simp
qed

lemma pow2_53_shift: "pow2 53 * pow2 (E - 52) = pow2 (E + 1)"
proof -
  have "53 + (E - 52) = E + 1" by simp
  then show ?thesis by (metis pow2_add)
qed

lemma rnd_idem:
  assumes "rnd x = Fin y"
  shows "rnd y = Fin y"
proof (cases "x = 0")
  case True
  then show ?thesis using assms by (simp add: rnd_def)
next
  case False
  define a where "a = \<bar>x\<bar>"
  define E where "E = max (ilog2 a) (- 1022)"
  define m where "m = round_half_even (a / quantum a)"
  define r where "r = rat_of_int m * quantum a"
  have apos: "0 < a" using False by (simp add: a_def)
  have q: "quantum a = pow2 (E - 52)" by (simp add: quantum_def E_def)
  have E_lo: "- 1022 \<le> E" by (simp add: E_def)
  from rnd_cases [OF False] assms
  have fin: "\<not> pow2 1024 \<le> r" and y: "y = (if 0 < x then r else - r)"
    by (auto simp: a_def m_def r_def split: if_splits)
  have "0 \<le> a / quantum a" using apos quantum_pos [of a] by simp
  then have "0 \<le> \<lfloor>a / quantum a\<rfloor>" by (simp only: zero_le_floor)
  then have m0: "0 \<le> m"
    unfolding m_def by (rule order_trans [OF _ round_half_even_ge_floor])
  have "\<lfloor>a / quantum a\<rfloor> < 2 ^ 53"
    using scaled_below_pow2_53 [OF apos] by (simp add: floor_less_iff pow2_def)
  then have "\<lfloor>a / quantum a\<rfloor> + 1 \<le> 2 ^ 53" by simp
  then have m53: "m \<le> 2 ^ 53"
    unfolding m_def by (rule order_trans [OF round_half_even_le])
  show ?thesis
  proof (cases "m = 0")
    case True
    then show ?thesis using y by (simp add: r_def rnd_def)
  next
    case mnz: False
    have mpos: "0 < m" using m0 mnz by simp
    have rpos: "0 < r" using mpos quantum_pos [of a] by (simp add: r_def)
    have y_abs: "\<bar>y\<bar> = r" using rpos y by simp
    have ynz: "y \<noteq> 0" using rpos y by auto
    have "\<exists>z. r / quantum r = rat_of_int z"
    proof (cases "m = 2 ^ 53")
      case True
      have "r = pow2 53 * pow2 (E - 52)" using True by (simp add: r_def q pow2_def)
      also have "\<dots> = pow2 (E + 1)" by (rule pow2_53_shift)
      finally have r_eq: "r = pow2 (E + 1)" .
      have "r < pow2 (E + 1 + 1)" unfolding r_eq by (rule pow2_strict_mono) simp
      then have "ilog2 r = E + 1" using r_eq by (intro ilog2_unique) simp_all
      then have "quantum r = pow2 (E + 1 - 52)" using E_lo by (simp add: quantum_def)
      then have "r / quantum r = pow2 (E + 1 - (E + 1 - 52))" by (simp only: r_eq pow2_diff)
      also have "\<dots> = rat_of_int (2 ^ 52)" by (simp add: pow2_def)
      finally show ?thesis by blast
    next
      case False
      then have "m + 1 \<le> 2 ^ 53" using m53 by simp
      then have "rat_of_int (m + 1) \<le> rat_of_int (2 ^ 53)" by (simp only: of_int_le_iff)
      then have "rat_of_int m < pow2 53" by (simp add: pow2_def)
      then have "r < pow2 53 * pow2 (E - 52)"
        using pow2_pos [of "E - 52"] by (simp add: r_def q)
      also have "\<dots> = pow2 (E + 1)" by (rule pow2_53_shift)
      finally have r_hi: "r < pow2 (E + 1)" .
      from ilog2_bounds [OF rpos] have "pow2 (ilog2 r) \<le> r" by simp
      then have "pow2 (ilog2 r) < pow2 (E + 1)" using r_hi by simp
      then have "ilog2 r < E + 1" by (rule pow2_less_cancel)
      then have le: "max (ilog2 r) (- 1022) \<le> E" using E_lo by simp
      define E' where "E' = max (ilog2 r) (- 1022)"
      have qr: "quantum r = pow2 (E' - 52)" by (simp add: quantum_def E'_def)
      have "r / quantum r = rat_of_int m * (pow2 (E - 52) / pow2 (E' - 52))"
        unfolding qr by (simp add: r_def q)
      also have "pow2 (E - 52) / pow2 (E' - 52) = pow2 (E - 52 - (E' - 52))"
        by (simp only: pow2_diff)
      also have "\<dots> = rat_of_int (2 ^ nat (E - E'))" using le by (simp add: pow2_def E'_def)
      finally have "r / quantum r = rat_of_int (m * 2 ^ nat (E - E'))" by simp
      then show ?thesis by blast
    qed
    then obtain z where z: "\<bar>y\<bar> / quantum \<bar>y\<bar> = rat_of_int z" unfolding y_abs by blast
    have lt: "\<bar>y\<bar> < pow2 1024" using fin unfolding y_abs by simp
    show ?thesis by (rule rnd_on_grid [OF ynz z lt])
  qed
qed

lemma representable_rnd [simp]: "representable (rnd x)"
  by (cases "rnd x") (simp_all add: rnd_idem)

lemma representable_add [simp]: "representable (num_add x y)"
  by (cases x; cases y) simp_all

lemma representable_sub [simp]: "representable (num_sub x y)"
  by (simp add: num_sub_def)

lemma representable_zero [simp]: "representable (Fin 0)"
  by (simp add: rnd_zero)

lemma num_add_zero_right [simp]: "representable x \<Longrightarrow> num_add x (Fin 0) = x"
  by (cases x) simp_all

lemma floor_rat_numeral_div [simp]:
  "\<lfloor>numeral a / numeral b :: rat\<rfloor> = numeral a div numeral b"
  using floor_divide_of_int_eq [of "numeral a" "numeral b", where ?'a = rat] by simp

lemma floor_rat_neg_numeral_div [simp]:
  "\<lfloor>- (numeral a / numeral b) :: rat\<rfloor> = - numeral a div numeral b"
  using floor_divide_of_int_eq [of "- numeral a" "numeral b", where ?'a = rat] by simp

lemma ilog2_scale:
  assumes "0 < a"
  shows "ilog2 (a * pow2 j) = ilog2 a + j"
proof (rule ilog2_unique)
  from ilog2_bounds [OF assms]
  have l: "pow2 (ilog2 a) \<le> a" and h: "a < pow2 (ilog2 a + 1)" by auto
  show "pow2 (ilog2 a + j) \<le> a * pow2 j"
    using l pow2_pos [of j] by (simp add: pow2_add)
  have "a * pow2 j < pow2 (ilog2 a + 1) * pow2 j"
    using h pow2_pos [of j] by simp
  also have "\<dots> = pow2 (ilog2 a + j + 1)"
  proof -
    have "ilog2 a + 1 + j = ilog2 a + j + 1" by simp
    then show ?thesis by (metis pow2_add)
  qed
  finally show "a * pow2 j < pow2 (ilog2 a + j + 1)" .
qed

lemma rnd_dyadic:
  assumes "\<bar>n\<bar> < 2 ^ 53" "- 1074 \<le> j" "j \<le> 971"
  shows "rnd (of_int n * pow2 j) = Fin (of_int n * pow2 j)"
proof (cases "n = 0")
  case True
  then show ?thesis by (simp add: rnd_def)
next
  case False
  define a where "a = rat_of_int \<bar>n\<bar>"
  define x where "x = rat_of_int n * pow2 j"
  have x_abs: "\<bar>x\<bar> = a * pow2 j" using pow2_pos [of j] by (simp add: x_def a_def abs_mult)
  have a1: "1 \<le> a" using False by (simp add: a_def)
  have apos: "0 < a" using a1 by simp
  have "\<bar>n\<bar> + 1 \<le> 2 ^ 53" using assms(1) by simp
  then have "rat_of_int (\<bar>n\<bar> + 1) \<le> rat_of_int (2 ^ 53)" by (simp only: of_int_le_iff)
  then have a53: "a < pow2 53" by (simp add: a_def pow2_def)
  define e where "e = ilog2 a"
  from ilog2_bounds [OF apos]
  have l: "pow2 e \<le> a" and h: "a < pow2 (e + 1)" by (auto simp: e_def)
  have "pow2 0 < pow2 (e + 1)" using a1 h by (simp add: pow2_def)
  then have e0: "0 \<le> e" using pow2_less_cancel [of 0 "e + 1"] by simp
  have "pow2 e < pow2 53" using l a53 by simp
  then have e52: "e \<le> 52" using pow2_less_cancel [of e 53] by simp
  define E where "E = max (e + j) (- 1022)"
  have "quantum (a * pow2 j) = pow2 (E - 52)"
    by (simp only: quantum_def ilog2_scale [OF apos] E_def e_def)
  then have q: "quantum \<bar>x\<bar> = pow2 (E - 52)" by (simp only: x_abs)
  have k0: "0 \<le> j - (E - 52)" using e52 assms(2) by (simp add: E_def)
  have "\<bar>x\<bar> / quantum \<bar>x\<bar> = a * (pow2 j / pow2 (E - 52))"
    unfolding q by (simp add: x_abs)
  also have "pow2 j / pow2 (E - 52) = pow2 (j - (E - 52))" by (simp only: pow2_diff)
  also have "\<dots> = rat_of_int (2 ^ nat (j - (E - 52)))" using k0 by (simp only: pow2_of_nat)
  finally have z: "\<bar>x\<bar> / quantum \<bar>x\<bar> = rat_of_int (\<bar>n\<bar> * 2 ^ nat (j - (E - 52)))"
    by (simp add: a_def)
  have "\<bar>x\<bar> < pow2 53 * pow2 j" unfolding x_abs using a53 pow2_pos [of j] by simp
  also have "\<dots> = pow2 (53 + j)" by (simp only: pow2_add)
  also have "\<dots> \<le> pow2 1024" by (rule pow2_mono) (use assms(3) in simp)
  finally have lt: "\<bar>x\<bar> < pow2 1024" .
  have nz: "x \<noteq> 0" using False pow2_pos [of j] by (simp add: x_def)
  show ?thesis using rnd_on_grid [OF nz z lt] by (simp add: x_def)
qed

lemma rnd_half [simp]: "rnd (1 / 2) = Fin (1 / 2)"
  using rnd_dyadic [of 1 "- 1"] by (simp add: pow2_def)

lemma rnd_halves [simp]:
  "numeral k < (9007199254740992::int) \<Longrightarrow> rnd (numeral k / 2) = Fin (numeral k / 2)"
  using rnd_dyadic [of "numeral k" "- 1"] by (simp add: pow2_def)

lemma rnd_quarters [simp]:
  "numeral k < (9007199254740992::int) \<Longrightarrow> rnd (numeral k / 4) = Fin (numeral k / 4)"
  using rnd_dyadic [of "numeral k" "- 2"] by (simp add: pow2_def)

lemma floor_rat_one_div [simp]: "\<lfloor>1 / numeral b :: rat\<rfloor> = 1 div numeral b"
  using floor_divide_of_int_eq [of 1 "numeral b", where ?'a = rat] by simp

section \<open>Properties of the matcher\<close>

lemma first_some_Some_mem: "first_some f xs = Some y \<Longrightarrow> \<exists>x \<in> set xs. f x = Some y"
  by (induction xs) (auto split: option.splits)

lemma runs_append: "(t, r) \<in> set (runs p s) \<Longrightarrow> t @ r = s"
  by (induction s arbitrary: t r) (auto split: if_splits)

lemma choices_append: "(t, r) \<in> set (choices (Rep p lo hi) s) \<Longrightarrow> t @ r = s \<and> lo \<le> length t"
  by (auto simp: choices_def dest: runs_append)

lemma match_seq_concat: "match_seq as s = Some caps \<Longrightarrow> concat caps = s \<and> length caps = length as"
proof (induction as arbitrary: s caps)
  case Nil
  then show ?case by (simp split: if_splits)
next
  case (Cons a as)
  obtain p lo hi where a: "a = Rep p lo hi" by (cases a)
  from Cons.prems obtain t r where tr: "(t, r) \<in> set (choices a s)"
    and m: "map_option (Cons t) (match_seq as r) = Some caps"
    by (auto dest!: first_some_Some_mem)
  from m obtain caps' where c: "match_seq as r = Some caps'" "caps = t # caps'" by auto
  from Cons.IH [OF c(1)] choices_append [of t r p lo hi s] tr a c(2)
  show ?case by auto
qed

lemma match_seq_last:
  assumes "match_seq (as @ [Rep p (Suc n) hi]) s = Some caps"
  shows "caps \<noteq> [] \<and> last caps \<noteq> [] \<and> (\<exists>pre. s = pre @ last caps)"
  using assms
proof (induction as arbitrary: s caps)
  case Nil
  then obtain t r where tr: "(t, r) \<in> set (choices (Rep p (Suc n) hi) s)"
    and m: "map_option (Cons t) (match_seq [] r) = Some caps"
    by (auto dest!: first_some_Some_mem)
  from m have "r = []" "caps = [t]" by (auto split: if_splits)
  with choices_append [OF tr] show ?case by auto
next
  case (Cons a as)
  obtain q lo h where a: "a = Rep q lo h" by (cases a)
  from Cons.prems obtain t r where tr: "(t, r) \<in> set (choices a s)"
    and m: "map_option (Cons t) (match_seq (as @ [Rep p (Suc n) hi]) r) = Some caps"
    by (auto dest!: first_some_Some_mem)
  from m obtain caps' where c: "match_seq (as @ [Rep p (Suc n) hi]) r = Some caps'" "caps = t # caps'"
    by auto
  from Cons.IH [OF c(1)] obtain pre where "caps' \<noteq> []" "last caps' \<noteq> []" "r = pre @ last caps'"
    by auto
  moreover have "t @ r = s" using choices_append [of t r q lo h s] tr a by simp
  ultimately show ?case using c(2) by auto
qed

lemma trim_last_not_space: "trim s \<noteq> [] \<Longrightarrow> \<not> is_space (last (trim s))"
proof -
  assume ne: "trim s \<noteq> []"
  define u where "u = dropWhile is_space (rev (dropWhile is_space s))"
  have t: "trim s = rev u" by (simp add: trim_def u_def)
  have "u \<noteq> []" using ne t by simp
  then have "\<not> is_space (hd u)" unfolding u_def by (rule hd_dropWhile)
  moreover have "last (rev u) = hd u" using \<open>u \<noteq> []\<close> by (simp add: last_rev)
  ultimately show ?thesis by (simp add: t)
qed

lemma trim_nonempty:
  assumes "g \<noteq> []" "\<not> is_space (last g)"
  shows "trim g \<noteq> []"
proof -
  have "last g \<in> set g" using assms(1) by simp
  then have "dropWhile is_space g \<noteq> []" using assms(2) by auto
  moreover have "last (dropWhile is_space g) = last g"
    using assms by (metis calculation last_appendR takeWhile_dropWhile_id)
  ultimately have "dropWhile is_space (rev (dropWhile is_space g)) \<noteq> []"
    using assms(2) by (cases "rev (dropWhile is_space g)") (auto simp: hd_rev dest: arg_cong [where f = hd])
  then show ?thesis by (simp add: trim_def)
qed

lemma dollarMatch_title:
  assumes "dollarMatch s = Some (g1, g2)" "s \<noteq> []" "\<not> is_space (last s)"
  shows "trim g2 \<noteq> []"
proof -
  from assms(1) obtain d w1 w2 h w3 where
    m: "match_seq dollarPattern s = Some [d, w1, g1, w2, h, w3, g2]"
    by (auto simp: dollarMatch_def split: option.splits list.splits)
  have "dollarPattern =
      [Rep (\<lambda>c. c = 36) 0 (Some 1), Rep is_space 0 None, Rep is_amount_char 1 None,
       Rep is_space 0 None, Rep (\<lambda>c. c = 45) 1 (Some 1), Rep is_space 0 None]
      @ [Rep is_dot (Suc 0) None]"
    by (simp add: dollarPattern_def)
  from match_seq_last [OF m [unfolded this]]
  obtain pre where "g2 \<noteq> []" "s = pre @ g2" by auto
  then show ?thesis using assms(3) by (intro trim_nonempty) simp_all
qed

lemma numberMatch_title:
  assumes "numberMatch s = Some (g1, g2)" "s \<noteq> []" "\<not> is_space (last s)"
  shows "trim g2 \<noteq> []"
proof -
  from assms(1) obtain w where m: "match_seq numberPattern s = Some [g1, w, g2]"
    by (auto simp: numberMatch_def split: option.splits list.splits)
  have "numberPattern = [Rep is_amount_char 1 None, Rep is_space 1 None] @ [Rep is_dot (Suc 0) None]"
    by (simp add: numberPattern_def)
  from match_seq_last [OF m [unfolded this]]
  obtain pre where "g2 \<noteq> []" "s = pre @ g2" by auto
  then show ?thesis using assms(3) by (intro trim_nonempty) simp_all
qed

lemma runs_class: "(t, r) \<in> set (runs p s) \<Longrightarrow> \<forall>c \<in> set t. p c"
  by (induction s arbitrary: t r) (auto split: if_splits)

lemma match_seq_hyphen:
  assumes "match_seq (as @ Rep (\<lambda>c. c = 45) (Suc 0) hi # bs) s = Some caps"
  shows "45 \<in> set s"
  using assms
proof (induction as arbitrary: s caps)
  case Nil
  then obtain t r where tr: "(t, r) \<in> set (choices (Rep (\<lambda>c. c = 45) (Suc 0) hi) s)"
    by (auto dest!: first_some_Some_mem)
  then have "t @ r = s" "Suc 0 \<le> length t" "\<forall>c \<in> set t. c = 45"
    using choices_append [OF tr] by (auto simp: choices_def dest: runs_class)
  then show ?case by (cases t) auto
next
  case (Cons a as)
  obtain q lo h where a: "a = Rep q lo h" by (cases a)
  from Cons.prems obtain t r where tr: "(t, r) \<in> set (choices a s)"
    and m: "map_option (Cons t) (match_seq (as @ Rep (\<lambda>c. c = 45) (Suc 0) hi # bs) r) = Some caps"
    by (auto dest!: first_some_Some_mem)
  from m obtain caps' where "match_seq (as @ Rep (\<lambda>c. c = 45) (Suc 0) hi # bs) r = Some caps'"
    by auto
  from Cons.IH [OF this] have "45 \<in> set r" .
  moreover have "t @ r = s" using choices_append [of t r q lo h s] tr a by simp
  ultimately show ?case by auto
qed

lemma dollarMatch_needs_hyphen: "45 \<notin> set s \<Longrightarrow> dollarMatch s = None"
proof (rule ccontr)
  assume n: "45 \<notin> set s" and "dollarMatch s \<noteq> None"
  then obtain caps where m: "match_seq dollarPattern s = Some caps"
    by (auto simp: dollarMatch_def split: option.splits)
  have "dollarPattern =
      [Rep (\<lambda>c. c = 36) 0 (Some 1), Rep is_space 0 None, Rep is_amount_char 1 None,
       Rep is_space 0 None] @ Rep (\<lambda>c. c = 45) (Suc 0) (Some 1) # [Rep is_space 0 None, Rep is_dot 1 None]"
    by (simp add: dollarPattern_def)
  from match_seq_hyphen [OF m [unfolded this]] n show False by simp
qed

section \<open>Evaluation\<close>

text \<open>The equations that evaluate the parser on a concrete input.\<close>

lemmas cls = is_space_def is_digit_def is_math_char_def is_amount_char_def is_dot_def
lemmas pats = dollarMatch_def numberMatch_def simpleMatch_def dollarPattern_def numberPattern_def
  simplePattern_def choices_def
lemmas parse_eval = js_def trim_def cls pats parseFloat_def parse_unsigned_def starts_with_def
  digits_value_def exponent_part_def pow10_def evaluateMultiplyDivide_def evaluateMath_def
  round2_def amount_result_def parseLineItem_def num_sub_def num_le_def


section \<open>Properties of the arithmetic\<close>

lemma rnd_not_NaN [simp]: "rnd x \<noteq> NaN"
  by (simp add: rnd_def Let_def)

lemma foldl_amounts: "foldl (\<lambda>sum item. num_add sum (amount_li item)) z items
    = foldl num_add z (map amount_li items)"
  by (induction items arbitrary: z) simp_all

lemma or_zero_id: "x \<noteq> NaN \<Longrightarrow> or_zero x = x"
  by (simp add: or_zero_def truthy_def)

section \<open>Properties of the parser\<close>

text \<open>
  With the title check of the first two branches never firing, \<open>parseLineItem\<close> is
  \<open>amount_result\<close> on the first match.
\<close>

lemma parseLineItem_by_match:
  "parseLineItem input =
     (let trimmed = trim input
      in if trimmed = [] then Inl (js ''Input cannot be empty'')
         else (case dollarMatch trimmed of
                 Some (g1, g2) \<Rightarrow> amount_result (trim g1) (trim g2)
               | None \<Rightarrow>
                   (case numberMatch trimmed of
                      Some (g1, g2) \<Rightarrow> amount_result (trim g1) (trim g2)
                    | None \<Rightarrow>
                        (case simpleMatch trimmed of
                           Some (g1, g2) \<Rightarrow>
                             amount_result (trim g1)
                               (if trim g2 = [] then js ''Expense'' else trim g2)
                         | None \<Rightarrow>
                             Inl (js ''Could not parse input. Try format: $190 - description'')))))"
proof (cases "trim input = []")
  case True
  then show ?thesis by (simp add: parseLineItem_def)
next
  case False
  note ns = trim_last_not_space [OF False]
  show ?thesis
    using False dollarMatch_title [OF _ False ns] numberMatch_title [OF _ False ns]
    by (auto simp: parseLineItem_def Let_def split: option.splits)
qed

lemma zero_divisor_loop: "zero_divisor tokens \<Longrightarrow> muldiv_loop r tokens = None"
  by (induction r tokens rule: muldiv_loop.induct) (auto simp: Let_def)

lemma split_keep_nonempty: "split_keep p s \<noteq> []"
  by (induction s) (auto split: list.splits)

lemma evaluateMultiplyDivide_zero_divisor:
  assumes "zero_divisor (tl (split_keep (\<lambda>c. c = 42 \<or> c = 47) t))"
  shows "evaluateMultiplyDivide t = None"
proof -
  obtain t0 tokens where s: "split_keep (\<lambda>c. c = 42 \<or> c = 47) t = t0 # tokens"
    using split_keep_nonempty [of "\<lambda>c. c = 42 \<or> c = 47" t] by (cases "split_keep (\<lambda>c. c = 42 \<or> c = 47) t") auto
  then show ?thesis
    using assms by (simp add: evaluateMultiplyDivide_def Let_def zero_divisor_loop)
qed

lemma zero_divisor_not_sign:
  assumes "zero_divisor (tl (split_keep (\<lambda>c. c = 42 \<or> c = 47) t))"
  shows "t \<noteq> [43] \<and> t \<noteq> [45]"
  using assms by auto

lemma addsub_loop_failing_term:
  assumes "list_ex (\<lambda>t. zero_divisor (tl (split_keep (\<lambda>c. c = 42 \<or> c = 47) t))) tokens"
  shows "addsub_loop r op tokens = None"
  using assms
proof (induction tokens arbitrary: r op)
  case Nil
  then show ?case by simp
next
  case (Cons t tokens)
  show ?case
  proof (cases "zero_divisor (tl (split_keep (\<lambda>c. c = 42 \<or> c = 47) t))")
    case True
    then show ?thesis
      using zero_divisor_not_sign [OF True] evaluateMultiplyDivide_zero_divisor [OF True] by simp
  next
    case False
    then have "list_ex (\<lambda>t. zero_divisor (tl (split_keep (\<lambda>c. c = 42 \<or> c = 47) t))) tokens"
      using Cons.prems by simp
    then show ?thesis using Cons.IH by (simp split: option.splits)
  qed
qed

lemma evaluateMath_divides_by_zero: "divides_by_zero seg \<Longrightarrow> evaluateMath seg = None"
  by (simp add: evaluateMath_def Let_def divides_by_zero_def addsub_loop_failing_term)

section \<open>Properties of the evaluator\<close>

lemma digits_value_Nil [simp]: "digits_value [] = 0"
  by (simp add: digits_value_def)

lemma takeWhile_digits:
  "list_all is_digit ds \<Longrightarrow> (rest = [] \<or> \<not> is_digit (hd rest)) \<Longrightarrow>
     takeWhile is_digit (ds @ rest) = ds \<and> dropWhile is_digit (ds @ rest) = rest"
  by (induction ds) (auto simp: list_all_iff takeWhile_eq_Nil_iff dropWhile_eq_self_iff
      intro: takeWhile_eq_Nil_iff [THEN iffD2])

lemma digit_facts:
  "is_digit c \<Longrightarrow> \<not> is_space c \<and> c \<noteq> 45 \<and> c \<noteq> 43 \<and> c \<noteq> 46 \<and> c \<noteq> 42 \<and> c \<noteq> 47 \<and> c \<noteq> 73"
  by (auto simp: is_digit_def is_space_def)

lemma parse_unsigned_literal:
  assumes "wf_literal l"
  shows "parse_unsigned (render_literal l) = literal_value l"
proof -
  obtain w fr where l: "l = Literal w fr" by (cases l)
  have dw: "list_all is_digit w" using assms by (simp add: wf_literal_def l)
  show ?thesis
  proof (cases fr)
    case None
    then have ne: "w \<noteq> []" using assms by (simp add: wf_literal_def l)
    have tw: "takeWhile is_digit w = w" "dropWhile is_digit w = []"
      using takeWhile_digits [OF dw, of "[]"] by simp_all
    have "\<not> starts_with (js ''Infinity'') w"
      using ne dw digit_facts [of "hd w"]
      by (cases w) (auto simp: starts_with_def js_def)
    then show ?thesis
      using ne by (simp add: parse_unsigned_def render_literal_def literal_value_def l None tw
          Let_def exponent_part_def pow10_def)
  next
    case (Some f)
    then have df: "list_all is_digit f" and ne: "w \<noteq> [] \<or> f \<noteq> []"
      using assms by (simp_all add: wf_literal_def l)
    have tw: "takeWhile is_digit (w @ 46 # f) = w" "dropWhile is_digit (w @ 46 # f) = 46 # f"
      using takeWhile_digits [OF dw, of "46 # f"] by (simp_all add: is_digit_def)
    have tf: "takeWhile is_digit f = f" "dropWhile is_digit f = []"
      using takeWhile_digits [OF df, of "[]"] by simp_all
    have "\<not> starts_with (js ''Infinity'') (w @ 46 # f)"
      using dw digit_facts [of "hd w"]
      by (cases w) (auto simp: starts_with_def js_def)
    then show ?thesis
      using ne by (auto simp: parse_unsigned_def render_literal_def literal_value_def l Some tw tf
          Let_def exponent_part_def pow10_def)
  qed
qed

lemma render_literal_chars:
  assumes "wf_literal l"
  shows "render_literal l \<noteq> [] \<and> (\<forall>c \<in> set (render_literal l). is_digit c \<or> c = 46)"
  using assms
  by (cases l) (auto simp: wf_literal_def render_literal_def list_all_iff split: option.splits)

lemma parseFloat_literal:
  assumes "wf_literal l"
  shows "parseFloat (render_literal l) = literal_value l"
proof -
  from render_literal_chars [OF assms]
  obtain c r where cr: "render_literal l = c # r" and c: "is_digit c \<or> c = 46"
    by (cases "render_literal l") auto
  have "\<not> is_space c" "c \<noteq> 45" "c \<noteq> 43"
    using c digit_facts [of c] by (auto simp: is_space_def)
  then have "parseFloat (c # r) = parse_unsigned (c # r)"
    by (simp add: parseFloat_def)
  then show ?thesis using parse_unsigned_literal [OF assms] by (simp add: cr)
qed

lemma literal_value_not_NaN [simp]: "literal_value l \<noteq> NaN"
  by (simp add: literal_value_def)

lemma literal_char:
  assumes "wf_literal l" "c \<in> set (render_literal l)"
  shows "c \<noteq> 42 \<and> c \<noteq> 47 \<and> c \<noteq> 43 \<and> c \<noteq> 45 \<and> is_math_char c \<and> \<not> is_space c"
proof -
  have "is_digit c \<or> c = 46" using render_literal_chars [OF assms(1)] assms(2) by blast
  then show ?thesis by (auto simp: is_digit_def is_math_char_def is_space_def)
qed

lemma mulop_char_simps [simp]: "mulop_char Times = 42" "mulop_char Divide = 47"
  by (simp_all add: mulop_char_def)

lemma addop_char_simps [simp]: "addop_char Plus = 43" "addop_char Minus = 45"
  by (simp_all add: addop_char_def)

lemma split_keep_no_sep: "(\<forall>c \<in> set x. \<not> p c) \<Longrightarrow> split_keep p x = [x]"
  by (induction x) auto

lemma split_keep_append_sep:
  "(\<forall>c \<in> set x. \<not> p c) \<Longrightarrow> p c \<Longrightarrow> split_keep p (x @ c # rest) = x # [c] # split_keep p rest"
  by (induction x) auto

lemma mulop_char_sep: "mulop_char b = 42 \<or> mulop_char b = 47"
  by (cases b) (simp_all add: mulop_char_def)

lemma split_product:
  assumes "wf_literal l" "list_all (\<lambda>(b, l). wf_literal l) ops"
  shows "split_keep (\<lambda>c. c = 42 \<or> c = 47)
           (render_literal l @ concat (map (\<lambda>(b, l). mulop_char b # render_literal l) ops))
         = render_literal l # concat (map (\<lambda>(b, l). [[mulop_char b], render_literal l]) ops)"
  using assms
proof (induction ops arbitrary: l)
  case Nil
  have "\<forall>c \<in> set (render_literal l). \<not> (c = 42 \<or> c = 47)"
    using literal_char [OF Nil(1)] by blast
  then show ?case by (simp add: split_keep_no_sep)
next
  case (Cons x ops)
  obtain b l' where x: "x = (b, l')" by (cases x)
  have ns: "\<forall>c \<in> set (render_literal l). \<not> (c = 42 \<or> c = 47)"
    using literal_char [OF Cons.prems(1)] by blast
  have wl': "wf_literal l'" and wo: "list_all (\<lambda>(b, l). wf_literal l) ops"
    using Cons.prems(2) by (simp_all add: x)
  show ?case
    using split_keep_append_sep [OF ns mulop_char_sep [of b]] Cons.IH [OF wl' wo]
    by (simp add: x)
qed

lemma foldl_muldiv_step_None [simp]: "foldl muldiv_step None ops = None"
  by (induction ops) simp_all

lemma muldiv_loop_product:
  assumes "list_all (\<lambda>(b, l). wf_literal l) ops"
  shows "muldiv_loop r (concat (map (\<lambda>(b, l). [[mulop_char b], render_literal l]) ops))
         = foldl muldiv_step (Some r) ops"
  using assms
proof (induction ops arbitrary: r)
  case Nil
  then show ?case by simp
next
  case (Cons x ops)
  obtain b l where x: "x = (b, l)" by (cases x)
  have wl: "wf_literal l" and wo: "list_all (\<lambda>(b, l). wf_literal l) ops"
    using Cons.prems by (simp_all add: x)
  show ?case
    by (cases b) (simp_all add: x Let_def parseFloat_literal [OF wl] Cons.IH [OF wo])
qed

lemma evaluateMultiplyDivide_product:
  assumes "wf_product p"
  shows "evaluateMultiplyDivide (render_product p) = product_value p"
  using assms
  by (simp add: evaluateMultiplyDivide_def render_product_def wf_product_def split_product
      parseFloat_literal muldiv_loop_product product_value_def)

lemma render_product_chars:
  assumes "wf_product p"
  shows "render_product p \<noteq> [] \<and> hd (render_product p) \<notin> {43, 45}
     \<and> (\<forall>c \<in> set (render_product p). is_math_char c \<and> c \<noteq> 43 \<and> c \<noteq> 45)"
proof -
  have wl: "wf_literal (fst p)" and wo: "\<forall>x \<in> set (snd p). wf_literal (snd x)"
    using assms by (auto simp: wf_product_def list_all_iff)
  have ne: "render_literal (fst p) \<noteq> []" using render_literal_chars [OF wl] by simp
  have all: "is_math_char c \<and> c \<noteq> 43 \<and> c \<noteq> 45" if "c \<in> set (render_product p)" for c
  proof -
    from that consider "c \<in> set (render_literal (fst p))"
      | x where "x \<in> set (snd p)" "c = mulop_char (fst x) \<or> c \<in> set (render_literal (snd x))"
      by (auto simp: render_product_def)
    then show ?thesis
    proof cases
      case 1
      then show ?thesis using literal_char [OF wl] by blast
    next
      case 2
      then show ?thesis
        using literal_char [of "snd x" c] wo mulop_char_sep [of "fst x"]
        by (auto simp: is_math_char_def)
    qed
  qed
  have "hd (render_product p) \<in> set (render_product p)"
    using ne by (simp add: render_product_def)
  then show ?thesis using all ne by (auto simp: render_product_def)
qed

lemma addop_char_sep: "addop_char b = 43 \<or> addop_char b = 45"
  by (cases b) simp_all

lemma split_expression:
  assumes "wf_product p" "list_all (\<lambda>(b, p). wf_product p) ops"
  shows "split_keep (\<lambda>c. c = 43 \<or> c = 45)
           (render_product p @ concat (map (\<lambda>(b, p). addop_char b # render_product p) ops))
         = render_product p # concat (map (\<lambda>(b, p). [[addop_char b], render_product p]) ops)"
  using assms
proof (induction ops arbitrary: p)
  case Nil
  have "\<forall>c \<in> set (render_product p). \<not> (c = 43 \<or> c = 45)"
    using render_product_chars [OF Nil(1)] by blast
  then show ?case by (simp add: split_keep_no_sep)
next
  case (Cons x ops)
  obtain b p' where x: "x = (b, p')" by (cases x)
  have ns: "\<forall>c \<in> set (render_product p). \<not> (c = 43 \<or> c = 45)"
    using render_product_chars [OF Cons.prems(1)] by blast
  have wp': "wf_product p'" and wo: "list_all (\<lambda>(b, p). wf_product p) ops"
    using Cons.prems(2) by (simp_all add: x)
  show ?case
    using split_keep_append_sep [OF ns addop_char_sep [of b]] Cons.IH [OF wp' wo]
    by (simp add: x)
qed

lemma foldl_addsub_step_None [simp]: "foldl addsub_step None ops = None"
  by (induction ops) simp_all

lemma product_not_sign:
  assumes "wf_product p"
  shows "render_product p \<noteq> [43] \<and> render_product p \<noteq> [45]"
  using render_product_chars [OF assms] by (cases "render_product p") auto

lemma addsub_loop_term:
  assumes "wf_product p"
  shows "addsub_loop r op (render_product p # tokens)
         = (case product_value p of
              None \<Rightarrow> None
            | Some v \<Rightarrow>
                addsub_loop (if op = [43] then num_add r v else num_sub r v) op tokens)"
  using product_not_sign [OF assms] by (simp add: evaluateMultiplyDivide_product [OF assms])

lemma addsub_loop_op:
  "addsub_loop r op ([43] # tokens) = addsub_loop r [43] tokens"
  "addsub_loop r op ([45] # tokens) = addsub_loop r [45] tokens"
  by simp_all

lemma addsub_loop_expression:
  assumes "list_all (\<lambda>(b, p). wf_product p) ops"
  shows "addsub_loop r op (concat (map (\<lambda>(b, p). [[addop_char b], render_product p]) ops))
         = foldl addsub_step (Some r) ops"
  using assms
proof (induction ops arbitrary: r op)
  case Nil
  then show ?case by simp
next
  case (Cons x ops)
  obtain b p where x: "x = (b, p)" by (cases x)
  have wp: "wf_product p" and wo: "list_all (\<lambda>(b, p). wf_product p) ops"
    using Cons.prems by (simp_all add: x)
  show ?case
    by (cases b)
      (simp_all add: x addsub_loop_op addsub_loop_term [OF wp] Cons.IH [OF wo]
        del: addsub_loop.simps split: option.splits)
qed

lemma evaluateMath_rendered:
  assumes "wf_expression e" and "filter (\<lambda>c. \<not> is_space c) s = render_expression e"
  shows "evaluateMath s = map_option round2 (expression_value e)"
proof -
  have wp: "wf_product (fst e)" and wo: "list_all (\<lambda>(b, p). wf_product p) (snd e)"
    using assms(1) by (simp_all add: wf_expression_def)
  have ne: "render_expression e \<noteq> []"
    using render_product_chars [OF wp] by (simp add: render_expression_def)
  have "is_math_char c" if "c \<in> set (render_expression e)" for c
  proof -
    from that consider "c \<in> set (render_product (fst e))"
      | x where "x \<in> set (snd e)" "c = addop_char (fst x) \<or> c \<in> set (render_product (snd x))"
      by (auto simp: render_expression_def)
    then show ?thesis
    proof cases
      case 1
      then show ?thesis using render_product_chars [OF wp] by blast
    next
      case 2
      then have "wf_product (snd x)" using wo by (auto simp: list_all_iff)
      then show ?thesis
        using 2 render_product_chars [of "snd x"] addop_char_sep [of "fst x"]
        by (auto simp: is_math_char_def)
    qed
  qed
  then have all: "list_all is_math_char (render_expression e)" by (simp add: list_all_iff)
  have "addsub_loop (Fin 0) [43]
          (split_keep (\<lambda>c. c = 43 \<or> c = 45) (render_expression e))
        = expression_value e"
    unfolding render_expression_def split_expression [OF wp wo] addsub_loop_term [OF wp]
      expression_value_def
    by (simp add: addsub_loop_expression [OF wo] del: addsub_loop.simps split: option.splits)
  then show ?thesis
    using ne all by (simp add: evaluateMath_def assms(2) Let_def split: option.splits)
qed

section \<open>Inputs of one amount and the title x\<close>

lemma runs_prefix:
  "list_all p ds \<Longrightarrow> \<exists>L. runs p (ds @ rest) = map (\<lambda>(t, r). (ds @ t, r)) (runs p rest) @ L"
proof (induction ds)
  case Nil
  then show ?case by (simp add: case_prod_unfold)
next
  case (Cons d ds)
  then obtain L where "runs p (ds @ rest) = map (\<lambda>(t, r). (ds @ t, r)) (runs p rest) @ L"
    by auto
  then have "runs p ((d # ds) @ rest)
      = map (\<lambda>(t, r). ((d # ds) @ t, r)) (runs p rest)
        @ (map (\<lambda>(t, r). (d # t, r)) L @ [([], d # ds @ rest)])"
    using Cons.prems by (simp add: case_prod_unfold comp_def)
  then show ?case by blast
qed

lemma numberMatch_spaced_x:
  assumes "g \<noteq> []" "list_all is_amount_char g"
  shows "numberMatch (g @ [32, 120]) = Some (g, [120])"
proof -
  obtain L where L: "runs is_amount_char (g @ [32, 120])
      = map (\<lambda>(t, r). (g @ t, r)) (runs is_amount_char [32, 120]) @ L"
    using runs_prefix [OF assms(2)] by blast
  have "runs is_amount_char [32, 120] = [([32], [120]), ([], [32, 120])]"
    by (simp add: cls)
  then have "runs is_amount_char (g @ [32, 120]) = (g @ [32], [120]) # (g, [32, 120]) # L"
    using L by simp
  then have "choices (Rep is_amount_char 1 None) (g @ [32, 120])
      = (g @ [32], [120]) # (g, [32, 120])
        # filter (\<lambda>(t, r). 1 \<le> length t \<and> True) L"
    using assms(1) by (simp add: choices_def Suc_le_eq)
  then have "match_seq numberPattern (g @ [32, 120]) = Some [g, [32], [120]]"
    by (simp add: numberPattern_def choices_def cls)
  then show ?thesis by (simp add: numberMatch_def)
qed

lemma trim_id:
  assumes "s \<noteq> []" "\<not> is_space (hd s)" "\<not> is_space (last s)"
  shows "trim s = s"
proof -
  have 1: "dropWhile is_space s = s" using assms(1,2) by (cases s) simp_all
  have "rev s \<noteq> []" "\<not> is_space (hd (rev s))" using assms(1,3) by (simp_all add: hd_rev)
  then have "dropWhile is_space (rev s) = rev s" by (cases "rev s") simp_all
  then show ?thesis by (simp add: trim_def 1)
qed

lemma parseLineItem_spaced_x:
  assumes "g \<noteq> []" "list_all is_amount_char g" "45 \<notin> set g"
    "\<not> is_space (hd g)" "\<not> is_space (last g)"
  shows "parseLineItem (g @ [32, 120]) = amount_result g [120]"
proof -
  have t: "trim (g @ [32, 120]) = g @ [32, 120]"
    using assms(1,4) by (intro trim_id) (simp_all add: is_space_def)
  have d: "dollarMatch (g @ [32, 120]) = None"
    using assms(3) by (intro dollarMatch_needs_hyphen) simp
  have x: "trim [120] = [120]" by (simp add: trim_def is_space_def)
  show ?thesis
    unfolding parseLineItem_by_match Let_def t
    by (simp add: d numberMatch_spaced_x [OF assms(1,2)] trim_id [OF assms(1,4,5)] x)
qed

lemma digits_value_nines: "digits_value (replicate n 57) + 1 = 10 ^ n"
proof -
  have "foldl (\<lambda>n c. 10 * n + (c - 48)) a (replicate n 57) + 1 = (a + 1) * 10 ^ n" for a :: nat
    by (induction n arbitrary: a) (simp_all add: algebra_simps)
  from this [of 0] show ?thesis by (simp add: digits_value_def)
qed

lemma nines_overflow: "literal_value (Literal (replicate 309 57) None) = PInf"
proof -
  have "rat_of_nat (digits_value (replicate 309 57) + 1) = 10 ^ 309"
    by (simp only: digits_value_nines of_nat_power of_nat_numeral)
  then have "rat_of_nat (digits_value (replicate 309 57)) = 10 ^ 309 - 1" by simp
  moreover have "pow2 1024 \<le> 10 ^ 309 - 1" by (simp add: pow2_def)
  ultimately show ?thesis by (simp add: literal_value_def rnd_overflow)
qed

lemma nines_chars:
  "replicate 309 57 \<noteq> []" "list_all is_digit (replicate 309 57)"
  by (simp_all add: list_all_iff is_digit_def)

section \<open>The outcomes of the parser\<close>

lemma amount_result_cases:
  "amount_result a t = Inl (js ''Invalid amount'')
   \<or> (\<exists>v. evaluateMath a = Some v \<and> \<not> num_le v (Fin 0)
          \<and> amount_result a t = Inr \<lparr>amount = v, title = t\<rparr>)"
  by (auto simp: amount_result_def split: option.splits)

lemma parseLineItem_shape:
  assumes "trim input \<noteq> []"
  shows "parseLineItem input = Inl (js ''Could not parse input. Try format: $190 - description'')
     \<or> (\<exists>a t. t \<noteq> [] \<and> parseLineItem input = amount_result a t)"
proof -
  note ns = trim_last_not_space [OF assms]
  have e: "js ''Expense'' \<noteq> []" by (simp add: js_def)
  show ?thesis
  proof (cases "dollarMatch (trim input)")
    case (Some g)
    then obtain g1 g2 where g: "dollarMatch (trim input) = Some (g1, g2)" by (cases g) simp
    have "parseLineItem input = amount_result (trim g1) (trim g2)"
      unfolding parseLineItem_by_match Let_def using assms g by simp
    then show ?thesis using dollarMatch_title [OF g assms ns] by blast
  next
    case d: None
    show ?thesis
    proof (cases "numberMatch (trim input)")
      case (Some g)
      then obtain g1 g2 where g: "numberMatch (trim input) = Some (g1, g2)" by (cases g) simp
      have "parseLineItem input = amount_result (trim g1) (trim g2)"
        unfolding parseLineItem_by_match Let_def using assms d g by simp
      then show ?thesis using numberMatch_title [OF g assms ns] by blast
    next
      case n: None
      show ?thesis
      proof (cases "simpleMatch (trim input)")
        case (Some g)
        then obtain g1 g2 where g: "simpleMatch (trim input) = Some (g1, g2)" by (cases g) simp
        have "parseLineItem input
            = amount_result (trim g1) (if trim g2 = [] then js ''Expense'' else trim g2)"
          unfolding parseLineItem_by_match Let_def using assms d n g by simp
        moreover have "(if trim g2 = [] then js ''Expense'' else trim g2) \<noteq> []" using e by simp
        ultimately show ?thesis by blast
      next
        case None
        then show ?thesis
          unfolding parseLineItem_by_match Let_def using assms d n by simp
      qed
    qed
  qed
qed

lemma parseLineItem_outcomes:
  "(\<forall>p. parseLineItem input = Inr p \<longrightarrow>
        \<not> num_le (amount p) (Fin 0) \<and> title p \<noteq> [])
   \<and> (\<forall>m. parseLineItem input = Inl m \<longrightarrow>
        m \<in> {js ''Input cannot be empty'', js ''Title cannot be empty'', js ''Invalid amount'',
             js ''Could not parse input. Try format: $190 - description''})
   \<and> (trim input = [] \<longrightarrow> parseLineItem input = Inl (js ''Input cannot be empty''))
   \<and> distinct [js ''Input cannot be empty'', js ''Title cannot be empty'', js ''Invalid amount'',
         js ''Could not parse input. Try format: $190 - description'']"
proof -
  have d: "distinct [js ''Input cannot be empty'', js ''Title cannot be empty'', js ''Invalid amount'',
         js ''Could not parse input. Try format: $190 - description'']"
    by (simp add: js_def)
  show ?thesis
  proof (cases "trim input = []")
    case True
    then show ?thesis using d by (simp add: parseLineItem_def)
  next
    case False
    from parseLineItem_shape [OF False] show ?thesis
    proof
      assume "parseLineItem input = Inl (js ''Could not parse input. Try format: $190 - description'')"
      then show ?thesis using d False by simp
    next
      assume "\<exists>a t. t \<noteq> [] \<and> parseLineItem input = amount_result a t"
      then obtain a t where t: "t \<noteq> []" and p: "parseLineItem input = amount_result a t" by blast
      from amount_result_cases [of a t] show ?thesis
      proof
        assume "amount_result a t = Inl (js ''Invalid amount'')"
        then show ?thesis using d False p by simp
      next
        assume "\<exists>v. evaluateMath a = Some v \<and> \<not> num_le v (Fin 0)
          \<and> amount_result a t = Inr \<lparr>amount = v, title = t\<rparr>"
        then show ?thesis using d False p t by auto
      qed
    qed
  qed
qed

section \<open>The loop of the aggregate summary\<close>

lemma max_profit_loss:
  assumes "p \<noteq> NaN"
  shows "(num_less (Fin 0) p \<longrightarrow> num_max p (Fin 0) = p \<and> num_max (num_neg p) (Fin 0) = Fin 0)
    \<and> (\<not> num_less (Fin 0) p \<longrightarrow>
          num_max p (Fin 0) = Fin 0 \<and> num_max (num_neg p) (Fin 0) = math_abs p)"
  using assms by (cases p) (auto simp: num_max_def)

lemma collect_sums:
  assumes "collect db fls st = Inr st'"
    and "representable (profit_acc st)" "representable (loss_acc st)"
  shows "\<exists>news. flipsData st' = flipsData st @ news
      \<and> map flip news = fls
      \<and> (\<forall>x \<in> set news. computeTotals db (id_f (flip x)) = Inr (totals x)
            \<and> lineItems x = getLineItemsByFlip db (id_f (flip x)))
      \<and> sales_acc st' = foldl num_add (sales_acc st) (map (\<lambda>f. opt_or_zero (sell_price f)) fls)
      \<and> purchases_acc st' = foldl num_add (purchases_acc st) (map buy_price fls)
      \<and> expenses_acc st' = foldl num_add (expenses_acc st) (map (\<lambda>x. totalCost (totals x)) news)
      \<and> ((\<forall>x \<in> set news. profit (totals x) \<noteq> NaN) \<longrightarrow>
           profit_acc st'
             = foldl num_add (profit_acc st) (map (\<lambda>x. num_max (profit (totals x)) (Fin 0)) news)
           \<and> loss_acc st'
             = foldl num_add (loss_acc st)
                 (map (\<lambda>x. num_max (num_neg (profit (totals x))) (Fin 0)) news))"
  using assms
proof (induction fls arbitrary: st)
  case Nil
  then show ?case by simp
next
  case (Cons fl fls)
  from Cons.prems(1) obtain t where t: "computeTotals db (id_f fl) = Inr t"
    by (cases "computeTotals db (id_f fl)") simp_all
  define x where "x = \<lparr>flip = fl, lineItems = getLineItemsByFlip db (id_f fl), totals = t\<rparr>"
  define st1 where "st1 =
    st\<lparr>flipsData := flipsData st @ [x],
       sales_acc := num_add (sales_acc st) (opt_or_zero (sell_price fl)),
       purchases_acc := num_add (purchases_acc st) (buy_price fl),
       expenses_acc := num_add (expenses_acc st) (totalCost t),
       profit_acc :=
         (if num_less (Fin 0) (profit t) then num_add (profit_acc st) (profit t)
          else profit_acc st),
       loss_acc :=
         (if num_less (Fin 0) (profit t) then loss_acc st
          else num_add (loss_acc st) (math_abs (profit t)))\<rparr>"
  have step: "collect db fls st1 = Inr st'"
    using Cons.prems(1) by (simp add: t st1_def x_def)
  have r1: "representable (profit_acc st1)" "representable (loss_acc st1)"
    using Cons.prems(2,3) by (simp_all add: st1_def)
  from Cons.IH [OF step r1] obtain news where n:
    "flipsData st' = flipsData st1 @ news" "map flip news = fls"
    "\<forall>x \<in> set news. computeTotals db (id_f (flip x)) = Inr (totals x)
            \<and> lineItems x = getLineItemsByFlip db (id_f (flip x))"
    "sales_acc st' = foldl num_add (sales_acc st1) (map (\<lambda>f. opt_or_zero (sell_price f)) fls)"
    "purchases_acc st' = foldl num_add (purchases_acc st1) (map buy_price fls)"
    "expenses_acc st' = foldl num_add (expenses_acc st1) (map (\<lambda>x. totalCost (totals x)) news)"
    "(\<forall>x \<in> set news. profit (totals x) \<noteq> NaN) \<longrightarrow>
           profit_acc st'
             = foldl num_add (profit_acc st1) (map (\<lambda>x. num_max (profit (totals x)) (Fin 0)) news)
           \<and> loss_acc st'
             = foldl num_add (loss_acc st1)
                 (map (\<lambda>x. num_max (num_neg (profit (totals x))) (Fin 0)) news)"
    by blast
  have accs: "profit t \<noteq> NaN \<Longrightarrow>
      profit_acc st1 = num_add (profit_acc st) (num_max (profit t) (Fin 0))
      \<and> loss_acc st1 = num_add (loss_acc st) (num_max (num_neg (profit t)) (Fin 0))"
    using max_profit_loss [of "profit t"] Cons.prems(2,3) by (simp add: st1_def)
  show ?case
  proof (intro exI [of _ "x # news"] conjI)
    show "flipsData st' = flipsData st @ x # news" using n(1) by (simp add: st1_def)
    show "map flip (x # news) = fl # fls" using n(2) by (simp add: x_def)
    show "\<forall>x \<in> set (x # news). computeTotals db (id_f (flip x)) = Inr (totals x)
            \<and> lineItems x = getLineItemsByFlip db (id_f (flip x))"
      using n(3) t by (simp add: x_def)
    show "sales_acc st' = foldl num_add (sales_acc st) (map (\<lambda>f. opt_or_zero (sell_price f)) (fl # fls))"
      using n(4) by (simp add: st1_def)
    show "purchases_acc st' = foldl num_add (purchases_acc st) (map buy_price (fl # fls))"
      using n(5) by (simp add: st1_def)
    show "expenses_acc st' = foldl num_add (expenses_acc st) (map (\<lambda>x. totalCost (totals x)) (x # news))"
      using n(6) by (simp add: st1_def x_def)
    show "(\<forall>x \<in> set (x # news). profit (totals x) \<noteq> NaN) \<longrightarrow>
           profit_acc st'
             = foldl num_add (profit_acc st) (map (\<lambda>x. num_max (profit (totals x)) (Fin 0)) (x # news))
           \<and> loss_acc st'
             = foldl num_add (loss_acc st)
                 (map (\<lambda>x. num_max (num_neg (profit (totals x))) (Fin 0)) (x # news))"
      using n(7) accs by (simp add: x_def)
  qed
qed

section \<open>The loops of the single-flip report\<close>

lemma foldl_append_concat: "foldl (\<lambda>content x. content @ g x) c xs = c @ concat (map g xs)"
  by (induction xs arbitrary: c) simp_all

lemma insort_key_buckets:
  assumes "\<forall>a \<in> set A. f a < f x" "\<forall>b \<in> set B. f x \<le> f b"
  shows "insort_key f x (A @ B) = A @ x # B"
  using assms by (induction A) (auto simp: insort_is_Cons)

lemma concat_buckets_split:
  assumes "m < n"
  shows "concat (map g [0..<n]) = concat (map g [0..<m]) @ g m @ concat (map g [Suc m..<n])"
proof -
  have "[0..<n] = [0..<m] @ [m..<n]"
    using upt_add_eq_append [of 0 m "n - m"] assms by simp
  moreover have "[m..<n] = m # [Suc m..<n]" using assms by (simp add: upt_conv_Cons)
  ultimately show ?thesis by simp
qed

lemma sort_key_buckets:
  assumes "\<forall>x \<in> set xs. f x < n"
  shows "sort_key f xs = concat (map (\<lambda>k. filter (\<lambda>x. f x = k) xs) [0..<n])"
  using assms
proof (induction xs)
  case Nil
  then show ?case by simp
next
  case (Cons x xs)
  let ?g = "\<lambda>ys k. filter (\<lambda>y. f y = k) ys"
  have m: "f x < n" using Cons.prems by simp
  have IH: "sort_key f xs = concat (map (?g xs) [0..<n])" using Cons by simp
  have lo: "concat (map (?g (x # xs)) [0..<f x]) = concat (map (?g xs) [0..<f x])"
    by (rule arg_cong [where f = concat]) auto
  have hi: "concat (map (?g (x # xs)) [Suc (f x)..<n]) = concat (map (?g xs) [Suc (f x)..<n])"
    by (rule arg_cong [where f = concat]) auto
  have "sort_key f (x # xs) = insort_key f x (concat (map (?g xs) [0..<n]))"
    by (simp add: IH)
  also have "\<dots> = insort_key f x
      (concat (map (?g xs) [0..<f x]) @ (?g xs (f x) @ concat (map (?g xs) [Suc (f x)..<n])))"
    by (simp only: concat_buckets_split [OF m])
  also have "\<dots> = concat (map (?g xs) [0..<f x]) @ x # (?g xs (f x) @ concat (map (?g xs) [Suc (f x)..<n]))"
    by (rule insort_key_buckets) auto
  also have "\<dots> = concat (map (?g (x # xs)) [0..<f x]) @ ?g (x # xs) (f x)
      @ concat (map (?g (x # xs)) [Suc (f x)..<n])"
    by (simp only: lo hi) simp
  also have "\<dots> = concat (map (?g (x # xs)) [0..<n])"
    using concat_buckets_split [OF m, of "?g (x # xs)"] by simp
  finally show ?case .
qed

lemma category_rank_eq [simp]:
  "category_rank c = 0 \<longleftrightarrow> c = Some Parts"
  "category_rank c = Suc 0 \<longleftrightarrow> c = Some Labor"
  "category_rank c = 2 \<longleftrightarrow> c = Some Fees"
  "category_rank c = 3 \<longleftrightarrow> c = Some Misc"
  "category_rank c = 4 \<longleftrightarrow> c = None"
  by (cases c rule: category_rank.cases; simp)+

lemma category_rank_less: "category_rank c < 5"
  by (cases c rule: category_rank.cases) simp_all

lemma category_rank_inj: "category_rank a = category_rank b \<longleftrightarrow> a = b"
  by (cases a rule: category_rank.cases; cases b rule: category_rank.cases; simp)

lemma sort_by_category:
  "sort_key (\<lambda>item. category_rank (category item)) items
   = filter (\<lambda>item. category item = Some Parts) items
     @ filter (\<lambda>item. category item = Some Labor) items
     @ filter (\<lambda>item. category item = Some Fees) items
     @ filter (\<lambda>item. category item = Some Misc) items
     @ filter (\<lambda>item. category item = None) items"
proof -
  have "[0..<5] = [0, Suc 0, 2, 3, 4]" by (simp add: upt_rec)
  then show ?thesis
    using sort_key_buckets [of items "\<lambda>item. category_rank (category item)" 5]
    by (simp add: category_rank_less)
qed

lemma category_loop_rows:
  "foldl (\<lambda>content c.
            (let categoryItems = filter (\<lambda>item. category item = Some c) items
             in if 0 < length categoryItems
                then foldl (\<lambda>content item. content @ g c item) content categoryItems
                else content))
     content cs
   = content @ concat (map (\<lambda>c. concat (map (g c) (filter (\<lambda>item. category item = Some c) items))) cs)"
  by (induction cs arbitrary: content) (simp_all add: Let_def foldl_append_concat)

lemma expense_rows_text:
  "expense_rows e items content
   = content @ concat (map (\<lambda>item. expense_row e (row_label (category item)) item)
       (sort_key (\<lambda>item. category_rank (category item)) items))"
proof -
  have lab: "map (\<lambda>item. expense_row e (row_label (category item)) item)
        (filter (\<lambda>item. category item = c) items)
      = map (expense_row e (row_label c)) (filter (\<lambda>item. category item = c) items)" for c
    by (rule map_cong) auto
  have "expense_rows e items content
      = content
        @ concat (map (\<lambda>c. concat (map (expense_row e (category_name c))
                    (filter (\<lambda>item. category item = Some c) items))) categories)
        @ concat (map (expense_row e (js ''misc'')) (filter (\<lambda>item. category item = None) items))"
    unfolding expense_rows_def category_loop_rows by (simp add: Let_def foldl_append_concat)
  also have "\<dots> = content @ concat (map (\<lambda>item. expense_row e (row_label (category item)) item)
       (sort_key (\<lambda>item. category_rank (category item)) items))"
    unfolding sort_by_category map_append concat_append lab
    by (simp add: categories_def row_label_def)
  finally show ?thesis .
qed

lemma foldl_if_append:
  "foldl (\<lambda>content c. if P c then content @ g c else content) content cs
   = content @ concat (map (\<lambda>c. if P c then g c else []) cs)"
  by (induction cs arbitrary: content) simp_all

lemma filter_nonempty_list_ex: "0 < length (filter P xs) \<longleftrightarrow> list_ex P xs"
  by (simp add: list_ex_iff filter_empty_conv)

lemma category_totals_text:
  "category_totals e items content
   = content
     @ concat (map (\<lambda>c. if list_ex (\<lambda>item. category item = Some c) items
                         then capitalize (category_name c) @ js '': ''
                              @ formatCurrency e (sum_left (category_amounts (Some c) items)) @ nl
                         else [])
          categories)
     @ (if num_less (Fin 0) (sum_left (category_amounts None items))
        then js ''Miscellaneous: '' @ formatCurrency e (sum_left (category_amounts None items)) @ nl
        else [])"
  unfolding category_totals_def Let_def foldl_if_append filter_nonempty_list_ex foldl_amounts
    sum_left_def category_amounts_def
  by (cases "num_less (Fin 0)
        (foldl num_add (Fin 0) (map amount_li (filter (\<lambda>item. category item = None) items)))")
    (simp_all only: if_True if_False append_assoc append_Nil2)

lemma in_order_snoc: "in_order a b t \<Longrightarrow> in_order a b (t @ q)"
  unfolding in_order_def by (metis append_assoc)

lemma in_order_second: "\<exists>pre mid. c = pre @ a @ mid \<Longrightarrow> in_order a b (c @ b)"
  unfolding in_order_def by (metis append_assoc append_Nil2)

lemma first_snoc: "\<exists>pre mid. c = pre @ a @ mid \<Longrightarrow> \<exists>pre mid. c @ m = pre @ a @ mid"
  by (metis append_assoc)

lemma first_here: "\<exists>pre mid. c @ a = pre @ a @ mid"
  by (metis append_Nil2)

lemma report_blocks_in_order:
  "in_order (listing_text e (lineItems d)) (summary_text e (lineItems d)) (generateTaxExportPDF e d)"
  unfolding generateTaxExportPDF_def Let_def
    expense_rows_text category_totals_text listing_text_def [symmetric] summary_text_def [symmetric]
  by (intro in_order_snoc [of _ _ _ "js ''- Consider quarterly estimated tax payments for significant gains'' @ nl"]
      in_order_snoc [of _ _ _ "js ''- Vehicle flipping may require business license in some jurisdictions'' @ nl"]
      in_order_snoc [of _ _ _ "js ''- Keep all receipts and supporting documentation'' @ nl"]
      in_order_snoc [of _ _ _ "js ''- Consult with a qualified tax professional'' @ nl"]
      in_order_snoc [of _ _ _ "js ''- This report is for tax preparation purposes'' @ nl"]
      in_order_snoc [of _ _ _ "js ''IMPORTANT NOTES:'' @ nl"]
      in_order_snoc [of _ _ _ nl]
      in_order_second
      first_snoc [of _ _ "js ''EXPENSE SUMMARY BY CATEGORY:'' @ nl"]
      first_snoc [of _ _ nl]
      first_snoc [of _ _ "js ''TOTAL EXPENSES: '' @ formatCurrency e (totalCost (totals d)) @ nl"]
      first_snoc [of _ _ "replicate 80 61 @ nl"]
      first_here)

lemma capitalized_names:
  "capitalize (category_name Parts) = js ''Parts''" "capitalize (category_name Labor) = js ''Labor''"
  "capitalize (category_name Fees) = js ''Fees''" "capitalize (category_name Misc) = js ''Misc''"
  by (simp_all add: capitalize_def category_name_def js_def upper_unit_def)

section \<open>The claims\<close>

subsection \<open>C3: the three grammars in order\<close>

text \<open>
  C3. The labeled, the spaced and the fallback grammar are tried in this order on the
  trimmed input, and the first that matches decides the result.
  \<open>"$150-25 - new battery"\<close> matches the labeled grammar and gives the amount 125 with the
  title \<open>"new battery"\<close>. \<open>"45 oil filter"\<close> does not match the labeled grammar, matches the
  spaced one and gives the amount 45 with the title \<open>"oil filter"\<close>. \<open>"5 -2 wheels"\<close> matches
  the labeled grammar (5, \<open>"2 wheels"\<close>) and the spaced one (\<open>"5 -2"\<close>, \<open>"wheels"\<close>), and
  the labeled one wins.
\<close>

theorem C3_grammars_in_order:
  "parseLineItem input =
     (if trim input = [] then Inl (js ''Input cannot be empty'')
      else if dollarMatch (trim input) \<noteq> None then
        (case the (dollarMatch (trim input)) of (g1, g2) \<Rightarrow>
           if trim g2 = [] then Inl (js ''Title cannot be empty'')
           else amount_result (trim g1) (trim g2))
      else if numberMatch (trim input) \<noteq> None then
        (case the (numberMatch (trim input)) of (g1, g2) \<Rightarrow>
           if trim g2 = [] then Inl (js ''Title cannot be empty'')
           else amount_result (trim g1) (trim g2))
      else if simpleMatch (trim input) \<noteq> None then
        (case the (simpleMatch (trim input)) of (g1, g2) \<Rightarrow>
           amount_result (trim g1) (if trim g2 = [] then js ''Expense'' else trim g2))
      else Inl (js ''Could not parse input. Try format: $190 - description''))
   \<and> dollarMatch (js ''$150-25 - new battery'') = Some (js ''150-25 '', js ''new battery'')
   \<and> parseLineItem (js ''$150-25 - new battery'')
       = Inr \<lparr>amount = Fin 125, title = js ''new battery''\<rparr>
   \<and> dollarMatch (js ''45 oil filter'') = None
   \<and> numberMatch (js ''45 oil filter'') = Some (js ''45'', js ''oil filter'')
   \<and> parseLineItem (js ''45 oil filter'') = Inr \<lparr>amount = Fin 45, title = js ''oil filter''\<rparr>
   \<and> dollarMatch (js ''5 -2 wheels'') = Some (js ''5 '', js ''2 wheels'')
   \<and> numberMatch (js ''5 -2 wheels'') = Some (js ''5 -2'', js ''wheels'')
   \<and> parseLineItem (js ''5 -2 wheels'') = Inr \<lparr>amount = Fin 5, title = js ''2 wheels''\<rparr>"
proof -
  have order: "parseLineItem input =
     (if trim input = [] then Inl (js ''Input cannot be empty'')
      else if dollarMatch (trim input) \<noteq> None then
        (case the (dollarMatch (trim input)) of (g1, g2) \<Rightarrow>
           if trim g2 = [] then Inl (js ''Title cannot be empty'')
           else amount_result (trim g1) (trim g2))
      else if numberMatch (trim input) \<noteq> None then
        (case the (numberMatch (trim input)) of (g1, g2) \<Rightarrow>
           if trim g2 = [] then Inl (js ''Title cannot be empty'')
           else amount_result (trim g1) (trim g2))
      else if simpleMatch (trim input) \<noteq> None then
        (case the (simpleMatch (trim input)) of (g1, g2) \<Rightarrow>
           amount_result (trim g1) (if trim g2 = [] then js ''Expense'' else trim g2))
      else Inl (js ''Could not parse input. Try format: $190 - description''))"
    by (auto simp: parseLineItem_def Let_def split: option.splits)
  have a1: "dollarMatch (js ''$150-25 - new battery'') = Some (js ''150-25 '', js ''new battery'')"
    by (simp add: js_def pats cls)
  have a2: "parseLineItem (js ''$150-25 - new battery'')
       = Inr \<lparr>amount = Fin 125, title = js ''new battery''\<rparr>"
    by (simp add: parse_eval)
  have b1: "dollarMatch (js ''45 oil filter'') = None"
    by (simp add: js_def pats cls)
  have b2: "numberMatch (js ''45 oil filter'') = Some (js ''45'', js ''oil filter'')"
    by (simp add: js_def pats cls)
  have b3: "parseLineItem (js ''45 oil filter'') = Inr \<lparr>amount = Fin 45, title = js ''oil filter''\<rparr>"
    by (simp add: parse_eval)
  have c1: "dollarMatch (js ''5 -2 wheels'') = Some (js ''5 '', js ''2 wheels'')"
    by (simp add: js_def pats cls)
  have c2: "numberMatch (js ''5 -2 wheels'') = Some (js ''5 -2'', js ''wheels'')"
    by (simp add: js_def pats cls)
  have c3: "parseLineItem (js ''5 -2 wheels'') = Inr \<lparr>amount = Fin 5, title = js ''2 wheels''\<rparr>"
    by (simp add: parse_eval)
  show ?thesis using order a1 a2 b1 b2 b3 c1 c2 c3 by blast
qed

subsection \<open>C1: computeTotals\<close>

text \<open>
  C1. For a flip that exists, with buy price \<open>B\<close>, sell price \<open>S\<close> (0 when absent; a sell
  price is a number, not NaN) and line items whose amounts sum to \<open>T\<close> from the left,
  \<open>computeTotals\<close> returns \<open>totalCost = T\<close>, \<open>profit = S - (B + T)\<close> and
  \<open>roi = profit / (B + T)\<close> when \<open>B + T > 0\<close>, else 0. With no line items and finite prices
  the total cost is 0, the profit is \<open>S - B\<close>, and neither the profit nor the ROI is NaN.
\<close>

theorem C1_computeTotals:
  assumes "getFlipById db flipId = Some fl" and "sell_price fl \<noteq> Some NaN"
  shows "computeTotals db flipId =
      (let B = buy_price fl;
           S = (case sell_price fl of None \<Rightarrow> Fin 0 | Some s \<Rightarrow> s);
           T = sum_left (map amount_li (getLineItemsByFlip db flipId))
       in Inr \<lparr>totalCost = T, profit = num_sub S (num_add B T),
               roi = (if num_less (Fin 0) (num_add B T)
                      then num_div (num_sub S (num_add B T)) (num_add B T) else Fin 0)\<rparr>)
    \<and> (getLineItemsByFlip db flipId = [] \<and> is_finite (buy_price fl)
          \<and> representable (buy_price fl) \<and> sell_price fl \<notin> {Some PInf, Some NInf} \<longrightarrow>
        (let B = buy_price fl; S = (case sell_price fl of None \<Rightarrow> Fin 0 | Some s \<Rightarrow> s)
         in computeTotals db flipId =
              Inr \<lparr>totalCost = Fin 0, profit = num_sub S B,
                   roi = (if num_less (Fin 0) B then num_div (num_sub S B) B else Fin 0)\<rparr>
            \<and> num_sub S B \<noteq> NaN
            \<and> (if num_less (Fin 0) B then num_div (num_sub S B) B else Fin 0) \<noteq> NaN))"
proof -
  define S where "S = (case sell_price fl of None \<Rightarrow> Fin 0 | Some s \<Rightarrow> s)"
  have S: "opt_or_zero (sell_price fl) = S"
    using assms(2) by (auto simp: S_def opt_or_zero_def or_zero_id split: option.splits)
  have main: "computeTotals db flipId =
      (let B = buy_price fl; T = sum_left (map amount_li (getLineItemsByFlip db flipId))
       in Inr \<lparr>totalCost = T, profit = num_sub S (num_add B T),
               roi = (if num_less (Fin 0) (num_add B T)
                      then num_div (num_sub S (num_add B T)) (num_add B T) else Fin 0)\<rparr>)"
    using assms(1) by (simp add: computeTotals_def Let_def foldl_amounts sum_left_def S)
  have empty: "computeTotals db flipId =
              Inr \<lparr>totalCost = Fin 0, profit = num_sub S (buy_price fl),
                   roi = (if num_less (Fin 0) (buy_price fl)
                          then num_div (num_sub S (buy_price fl)) (buy_price fl) else Fin 0)\<rparr>
            \<and> num_sub S (buy_price fl) \<noteq> NaN
            \<and> (if num_less (Fin 0) (buy_price fl)
                then num_div (num_sub S (buy_price fl)) (buy_price fl) else Fin 0) \<noteq> NaN"
    if e: "getLineItemsByFlip db flipId = []" and f: "is_finite (buy_price fl)"
      and r: "representable (buy_price fl)" and s: "sell_price fl \<notin> {Some PInf, Some NInf}"
  proof -
    obtain b where b: "buy_price fl = Fin b" using f by (cases "buy_price fl") simp_all
    have rb: "rnd b = Fin b" using r b by simp
    obtain v where v: "S = Fin v"
      using s assms(2) by (cases "sell_price fl"; cases S) (auto simp: S_def)
    have 1: "num_sub S (buy_price fl) \<noteq> NaN" by (simp add: num_sub_def b v)
    have 2: "num_less (Fin 0) (buy_price fl) \<Longrightarrow> num_div (num_sub S (buy_price fl)) (buy_price fl) \<noteq> NaN"
      by (cases "rnd (v - b)") (auto simp: num_sub_def b v signed_inf_def)
    show ?thesis using main 1 2 by (simp add: e sum_left_def Let_def b rb)
  qed
  show ?thesis using main empty unfolding S_def Let_def by blast
qed

theorem C1_witness:
  "computeTotals example_store 1 =
     Inr \<lparr>totalCost = Fin 0, profit = Fin 2700, roi = num_div (Fin 2700) (Fin 3500)\<rparr>
   \<and> num_div (Fin 2700) (Fin 3500) \<noteq> NaN"
  using C1_computeTotals [of example_store 1 example_flip]
  by (simp add: example_store_def example_flip_def num_sub_def sum_left_def Let_def)

subsection \<open>C9: the what-if totals\<close>

text \<open>
  C9. For a loaded flip with a buy price \<open>B\<close> (truthy: not 0, not NaN), the total cost \<open>T\<close>
  of the current totals and the hypothetical sell price \<open>S'\<close> (the text of the what-if
  field parsed by \<open>parseFloat\<close>, or the flip's own sell price when the field is empty),
  \<open>computeWhatIfTotals\<close> returns \<open>totalCost = T\<close>, \<open>profit = S' - (B + T)\<close> and
  \<open>roi = profit / (B + T)\<close> when \<open>B + T > 0\<close>, else 0; and when \<open>S'\<close> is not NaN this is
  what \<open>computeTotals\<close> returns for the same flip and line items with the sell price
  replaced by \<open>S'\<close>.
\<close>

theorem C9_whatIf_same_formulas:
  assumes "sheet_flip st = Some fl" and "truthy (buy_price fl)"
  shows
    "(let B = buy_price fl; T = totalCost (sheet_totals st);
          S' = (if whatIfSellPrice st \<noteq> [] then parseFloat (whatIfSellPrice st)
                else opt_or_zero (sell_price fl))
      in computeWhatIfTotals st =
           \<lparr>totalCost = T, profit = num_sub S' (num_add B T),
            roi = (if num_less (Fin 0) (num_add B T)
                   then num_div (num_sub S' (num_add B T)) (num_add B T) else Fin 0)\<rparr>
         \<and> (\<forall>db i. getFlipById db i = Some fl \<and> computeTotals db i = Inr (sheet_totals st)
                \<and> S' \<noteq> NaN \<longrightarrow>
              computeTotals
                (db\<lparr>getFlipById := (getFlipById db)(i := Some (fl\<lparr>sell_price := Some S'\<rparr>))\<rparr>) i
              = Inr (computeWhatIfTotals st)))"
proof -
  define S' where "S' = (if whatIfSellPrice st \<noteq> [] then parseFloat (whatIfSellPrice st)
                else opt_or_zero (sell_price fl))"
  have formulas: "computeWhatIfTotals st =
           \<lparr>totalCost = totalCost (sheet_totals st),
            profit = num_sub S' (num_add (buy_price fl) (totalCost (sheet_totals st))),
            roi = (if num_less (Fin 0) (num_add (buy_price fl) (totalCost (sheet_totals st)))
                   then num_div (num_sub S' (num_add (buy_price fl) (totalCost (sheet_totals st))))
                          (num_add (buy_price fl) (totalCost (sheet_totals st)))
                   else Fin 0)\<rparr>"
    using assms by (simp add: computeWhatIfTotals_def Let_def S'_def)
  have same: "computeTotals
                (db\<lparr>getFlipById := (getFlipById db)(i := Some (fl\<lparr>sell_price := Some S'\<rparr>))\<rparr>) i
              = Inr (computeWhatIfTotals st)"
    if f: "getFlipById db i = Some fl" and t: "computeTotals db i = Inr (sheet_totals st)"
      and n: "S' \<noteq> NaN" for db i
  proof -
    have "totalCost (sheet_totals st)
        = foldl (\<lambda>sum item. num_add sum (amount_li item)) (Fin 0) (getLineItemsByFlip db i)"
      using f t [symmetric] by (simp add: computeTotals_def Let_def)
    then show ?thesis
      using n by (simp add: formulas computeTotals_def Let_def opt_or_zero_def or_zero_id)
  qed
  show ?thesis unfolding Let_def S'_def [symmetric] using formulas same by blast
qed

theorem C9_witness:
  "computeWhatIfTotals example_sheet = \<lparr>totalCost = Fin 0, profit = Fin 3500, roi = Fin 1\<rparr>
   \<and> computeTotals
       (example_store\<lparr>getFlipById :=
          (getFlipById example_store)(1 := Some (example_flip\<lparr>sell_price := Some (Fin 7000)\<rparr>))\<rparr>) 1
     = Inr (computeWhatIfTotals example_sheet)"
proof -
  have 1: "sheet_flip example_sheet = Some example_flip" by (simp add: example_sheet_def)
  have 2: "truthy (buy_price example_flip)" by (simp add: example_flip_def truthy_def)
  have 3: "parseFloat (whatIfSellPrice example_sheet) = Fin 7000"
    by (simp add: example_sheet_def parse_eval)
  have 4: "getFlipById example_store 1 = Some example_flip" by (simp add: example_store_def)
  have 5: "computeTotals example_store 1 = Inr (sheet_totals example_sheet)"
    by (simp add: example_store_def example_sheet_def example_flip_def computeTotals_def
        opt_or_zero_def or_zero_def truthy_def num_sub_def)
  have 6: "whatIfSellPrice example_sheet \<noteq> []" by (simp add: example_sheet_def js_def)
  from C9_whatIf_same_formulas [OF 1 2] 3 4 5 6
  have a: "computeWhatIfTotals example_sheet =
      \<lparr>totalCost = totalCost (sheet_totals example_sheet),
       profit = num_sub (Fin 7000) (num_add (buy_price example_flip) (totalCost (sheet_totals example_sheet))),
       roi = (if num_less (Fin 0) (num_add (buy_price example_flip) (totalCost (sheet_totals example_sheet)))
              then num_div (num_sub (Fin 7000) (num_add (buy_price example_flip) (totalCost (sheet_totals example_sheet))))
                     (num_add (buy_price example_flip) (totalCost (sheet_totals example_sheet)))
              else Fin 0)\<rparr>"
    and b: "computeTotals
       (example_store\<lparr>getFlipById :=
          (getFlipById example_store)(1 := Some (example_flip\<lparr>sell_price := Some (Fin 7000)\<rparr>))\<rparr>) 1
     = Inr (computeWhatIfTotals example_sheet)"
    by (simp_all add: Let_def)
  from a have "computeWhatIfTotals example_sheet = \<lparr>totalCost = Fin 0, profit = Fin 3500, roi = Fin 1\<rparr>"
    by (simp add: example_sheet_def example_flip_def num_sub_def)
  then show ?thesis using b by simp
qed

subsection \<open>C4: division by zero\<close>

text \<open>
  C4, as the code has it. When the numeric segment of the grammar that matches contains a
  division by zero, \<open>parseLineItem\<close> returns the failure \<open>Invalid amount\<close>: a returned
  value, never a success, so never a NaN or infinite amount. The message is the one of every
  other refused amount (\<open>"0 something"\<close> gets the same); no message of the parser speaks of
  a division.
\<close>

theorem C4_division_by_zero_is_invalid_amount:
  assumes "matched_segment input = Some seg" and "divides_by_zero seg"
  shows "parseLineItem input = Inl (js ''Invalid amount'')"
proof -
  have "amount_result seg ttl = Inl (js ''Invalid amount'')" for ttl
    using assms(2) by (simp add: amount_result_def evaluateMath_divides_by_zero)
  then show ?thesis
    using assms(1) unfolding parseLineItem_by_match matched_segment_def Let_def
    by (auto split: if_splits option.splits)
qed

theorem C4_witness:
  "matched_segment (js ''10/0 something'') = Some (js ''10/0'')
   \<and> divides_by_zero (js ''10/0'')
   \<and> parseLineItem (js ''10/0 something'') = Inl (js ''Invalid amount'')"
proof -
  have 1: "matched_segment (js ''10/0 something'') = Some (js ''10/0'')"
    by (simp add: matched_segment_def parse_eval)
  have 2: "divides_by_zero (js ''10/0'')"
    by (simp add: divides_by_zero_def parse_eval)
  from C4_division_by_zero_is_invalid_amount [OF 1 2] 1 2 show ?thesis by simp
qed

theorem C4_counterexample:
  "parseLineItem (js ''10/0 something'') = Inl (js ''Invalid amount'')
   \<and> parseLineItem (js ''0 something'') = Inl (js ''Invalid amount'')"
  by (simp add: parse_eval)

subsection \<open>C2: the evaluator\<close>



subsection \<open>C5: successes and failures of the parser\<close>

text \<open>
  C5 at two inputs. The amount of 309 nines exceeds the largest double: \<open>parseFloat\<close>
  gives Infinity, \<open>amount <= 0\<close> is false, and \<open>parseLineItem\<close> returns the success with
  the amount Infinity. The quotient of two such amounts is NaN, every comparison with NaN is
  false, and the success carries the amount NaN. (\<open>parseLineItem_outcomes\<close> above is what
  holds for every input: a success has an amount that is not \<open>\<le> 0\<close> and a title that is not
  empty, a failure carries one of the four messages, and an empty or blank input gets the
  first of them.)
\<close>

theorem C5_non_finite_amounts_accepted:
  "parseLineItem (replicate 309 57 @ js '' x'') = Inr \<lparr>amount = PInf, title = js ''x''\<rparr>
   \<and> parseLineItem (replicate 309 57 @ js ''/'' @ replicate 309 57 @ js '' x'')
       = Inr \<lparr>amount = NaN, title = js ''x''\<rparr>"
proof -
  let ?A = "replicate 309 (57::nat)"
  let ?l = "Literal ?A None"
  have wl: "wf_literal ?l" using nines_chars by (simp add: wf_literal_def)
  have sp: "filter (\<lambda>c. \<not> is_space c) ?A = ?A" by (simp add: is_space_def)
  \<comment> \<open>the single literal\<close>
  let ?e1 = "((?l, []), []) :: expression"
  have w1: "wf_expression ?e1" by (simp add: wf_expression_def wf_product_def wl)
  have rA: "render_expression ?e1 = ?A"
    by (simp add: render_expression_def render_product_def render_literal_def)
  have "evaluateMath ?A = map_option round2 (expression_value ?e1)"
    by (rule evaluateMath_rendered [OF w1]) (simp only: sp rA)
  then have e1: "evaluateMath ?A = Some PInf"
    by (simp add: expression_value_def product_value_def nines_overflow round2_def signed_inf_def)
  have c1: "list_all is_amount_char ?A" "45 \<notin> set ?A" "\<not> is_space (hd ?A)" "\<not> is_space (last ?A)"
    by (simp_all add: list_all_iff cls)
  have r1: "parseLineItem (?A @ [32, 120]) = Inr \<lparr>amount = PInf, title = [120]\<rparr>"
    using parseLineItem_spaced_x [OF nines_chars(1) c1]
    by (simp add: amount_result_def e1 num_le_def)
  \<comment> \<open>the quotient of two\<close>
  let ?B = "?A @ (47::nat) # ?A"
  let ?e2 = "((?l, [(Divide, ?l)]), []) :: expression"
  have n47: "\<not> is_space 47" by (simp add: is_space_def)
  have spB: "filter (\<lambda>c. \<not> is_space c) ?B = ?B" using sp n47 by simp
  have w2: "wf_expression ?e2" by (simp add: wf_expression_def wf_product_def wl)
  have rB: "render_expression ?e2 = ?B"
    by (simp add: render_expression_def render_product_def render_literal_def)
  have "evaluateMath ?B = map_option round2 (expression_value ?e2)"
    by (rule evaluateMath_rendered [OF w2]) (simp only: spB rB)
  then have e2: "evaluateMath ?B = Some NaN"
    by (simp add: expression_value_def product_value_def nines_overflow round2_def)
  have c2: "?B \<noteq> []" "list_all is_amount_char ?B" "45 \<notin> set ?B" "\<not> is_space (hd ?B)"
      "\<not> is_space (last ?B)"
    by (simp_all add: list_all_iff cls hd_append)
  have r2: "parseLineItem (?B @ [32, 120]) = Inr \<lparr>amount = NaN, title = [120]\<rparr>"
    using parseLineItem_spaced_x [OF c2]
    by (simp add: amount_result_def e2 num_le_def)
  show ?thesis using r1 r2 by (simp add: js_def)
qed

subsection \<open>C8: the aggregate tax summary\<close>

text \<open>
  C8. When \<open>exportCompleteTaxReport\<close> hands its data over (every flip found in the
  database), with sell prices and per-flip profits that are not NaN: total sales is the sum
  of the sell prices (0 where unset), total purchases the sum of the buy prices, total
  expenses the sum of the per-flip \<open>totalCost\<close>, total profit the sum of \<open>max(profit, 0)\<close>,
  total loss the sum of \<open>max(-profit, 0)\<close>, all summed from the left in the order of the
  flips, and net gain/loss is total profit minus total loss. Per-flip profits 100, -50, 30
  give 130, 50 and 80.
\<close>

theorem C8_aggregate_summary:
  assumes "exportCompleteTaxReport db fls currentYear = Inr d"
    and "\<forall>f \<in> set fls. sell_price f \<noteq> Some NaN"
    and "\<forall>x \<in> set (flips d). profit (totals x) \<noteq> NaN"
  shows "map flip (flips d) = fls
    \<and> (\<forall>x \<in> set (flips d). computeTotals db (id_f (flip x)) = Inr (totals x))
    \<and> totalSales (summary d)
        = sum_left (map (\<lambda>f. case sell_price f of None \<Rightarrow> Fin 0 | Some s \<Rightarrow> s) fls)
    \<and> totalPurchases (summary d) = sum_left (map buy_price fls)
    \<and> totalExpenses (summary d) = sum_left (map (\<lambda>x. totalCost (totals x)) (flips d))
    \<and> totalProfit (summary d)
        = sum_left (map (\<lambda>x. num_max (profit (totals x)) (Fin 0)) (flips d))
    \<and> totalLoss (summary d)
        = sum_left (map (\<lambda>x. num_max (num_neg (profit (totals x))) (Fin 0)) (flips d))
    \<and> netGainLoss (summary d) = num_sub (totalProfit (summary d)) (totalLoss (summary d))
    \<and> (map (\<lambda>x. profit (totals x)) (flips d) = [Fin 100, Fin (- 50), Fin 30] \<longrightarrow>
         totalProfit (summary d) = Fin 130 \<and> totalLoss (summary d) = Fin 50
         \<and> netGainLoss (summary d) = Fin 80)"
proof -
  define st0 where "st0 =
    \<lparr>flipsData = [], sales_acc = Fin 0, purchases_acc = Fin 0, expenses_acc = Fin 0,
     profit_acc = Fin 0, loss_acc = Fin 0\<rparr>"
  from assms(1) obtain st' where c: "collect db fls st0 = Inr st'"
    and d: "d = \<lparr>flips = flipsData st', taxYear_all = currentYear,
                 summary =
                   \<lparr>totalFlips = length fls, totalProfit = profit_acc st',
                    totalLoss = loss_acc st',
                    netGainLoss = num_sub (profit_acc st') (loss_acc st'),
                    totalExpenses = expenses_acc st', totalSales = sales_acc st',
                    totalPurchases = purchases_acc st'\<rparr>\<rparr>"
    by (auto simp: exportCompleteTaxReport_def st0_def split: if_splits sum.splits)
  have r: "representable (profit_acc st0)" "representable (loss_acc st0)"
    by (simp_all add: st0_def)
  from collect_sums [OF c r] obtain news where n:
    "flipsData st' = news" "map flip news = fls"
    "\<forall>x \<in> set news. computeTotals db (id_f (flip x)) = Inr (totals x)
            \<and> lineItems x = getLineItemsByFlip db (id_f (flip x))"
    "sales_acc st' = foldl num_add (Fin 0) (map (\<lambda>f. opt_or_zero (sell_price f)) fls)"
    "purchases_acc st' = foldl num_add (Fin 0) (map buy_price fls)"
    "expenses_acc st' = foldl num_add (Fin 0) (map (\<lambda>x. totalCost (totals x)) news)"
    "(\<forall>x \<in> set news. profit (totals x) \<noteq> NaN) \<longrightarrow>
           profit_acc st'
             = foldl num_add (Fin 0) (map (\<lambda>x. num_max (profit (totals x)) (Fin 0)) news)
           \<and> loss_acc st'
             = foldl num_add (Fin 0)
                 (map (\<lambda>x. num_max (num_neg (profit (totals x))) (Fin 0)) news)"
    by (auto simp: st0_def)
  have fl: "flips d = news" by (simp add: d n(1))
  have sell: "map (\<lambda>f. opt_or_zero (sell_price f)) fls
      = map (\<lambda>f. case sell_price f of None \<Rightarrow> Fin 0 | Some s \<Rightarrow> s) fls"
    using assms(2) by (auto simp: opt_or_zero_def or_zero_id split: option.splits)
  have pl: "totalProfit (summary d)
        = sum_left (map (\<lambda>x. num_max (profit (totals x)) (Fin 0)) (flips d))"
      "totalLoss (summary d)
        = sum_left (map (\<lambda>x. num_max (num_neg (profit (totals x))) (Fin 0)) (flips d))"
    using n(7) assms(3) unfolding fl by (simp_all add: d sum_left_def)
  have net: "netGainLoss (summary d) = num_sub (totalProfit (summary d)) (totalLoss (summary d))"
    by (simp add: d)
  have ex: "totalProfit (summary d) = Fin 130 \<and> totalLoss (summary d) = Fin 50
         \<and> netGainLoss (summary d) = Fin 80"
    if "map (\<lambda>x. profit (totals x)) (flips d) = [Fin 100, Fin (- 50), Fin 30]"
  proof -
    have m: "map (\<lambda>x. num_max (profit (totals x)) (Fin 0)) (flips d)
        = map (\<lambda>p. num_max p (Fin 0)) (map (\<lambda>x. profit (totals x)) (flips d))"
      "map (\<lambda>x. num_max (num_neg (profit (totals x))) (Fin 0)) (flips d)
        = map (\<lambda>p. num_max (num_neg p) (Fin 0)) (map (\<lambda>x. profit (totals x)) (flips d))"
      by (simp_all add: comp_def)
    have "totalProfit (summary d) = Fin 130" "totalLoss (summary d) = Fin 50"
      unfolding pl m that by (simp_all add: sum_left_def num_max_def)
    then show ?thesis using net by (simp add: num_sub_def)
  qed
  have A: "map flip (flips d) = fls" using n(2) by (simp add: fl)
  have B: "\<forall>x \<in> set (flips d). computeTotals db (id_f (flip x)) = Inr (totals x)"
    using n(3) by (simp add: fl)
  have C: "totalSales (summary d)
        = sum_left (map (\<lambda>f. case sell_price f of None \<Rightarrow> Fin 0 | Some s \<Rightarrow> s) fls)"
    by (simp add: d n(4) sell sum_left_def)
  have D: "totalPurchases (summary d) = sum_left (map buy_price fls)"
    by (simp add: d n(5) sum_left_def)
  have E: "totalExpenses (summary d) = sum_left (map (\<lambda>x. totalCost (totals x)) (flips d))"
    unfolding fl by (simp add: d n(6) sum_left_def)
  show ?thesis using A B C D E pl net ex by blast
qed

theorem C8_witness:
  "\<exists>d. exportCompleteTaxReport example_store3 example_flips (Fin 2025) = Inr d
     \<and> map (\<lambda>x. profit (totals x)) (flips d) = [Fin 100, Fin (- 50), Fin 30]
     \<and> totalSales (summary d) = Fin 350 \<and> totalPurchases (summary d) = Fin 270
     \<and> totalExpenses (summary d) = Fin 0
     \<and> totalProfit (summary d) = Fin 130 \<and> totalLoss (summary d) = Fin 50
     \<and> netGainLoss (summary d) = Fin 80"
proof -
  let ?r = "exportCompleteTaxReport example_store3 example_flips (Fin 2025)"
  obtain d where d: "?r = Inr d"
    and p: "map (\<lambda>x. profit (totals x)) (flips d) = [Fin 100, Fin (- 50), Fin 30]"
    and c: "map (\<lambda>x. totalCost (totals x)) (flips d) = [Fin 0, Fin 0, Fin 0]"
    by (simp add: exportCompleteTaxReport_def example_store3_def example_flips_def example_flip_def
        computeTotals_def opt_or_zero_def or_zero_def truthy_def num_sub_def)
  have 1: "\<forall>f \<in> set example_flips. sell_price f \<noteq> Some NaN"
    by (simp add: example_flips_def example_flip_def)
  have 2: "\<forall>x \<in> set (flips d). profit (totals x) \<noteq> NaN"
  proof
    fix x assume "x \<in> set (flips d)"
    then have "profit (totals x) \<in> set (map (\<lambda>x. profit (totals x)) (flips d))" by simp
    then show "profit (totals x) \<noteq> NaN" unfolding p by auto
  qed
  note th = C8_aggregate_summary [OF d 1 2]
  from th have a: "totalSales (summary d)
        = sum_left (map (\<lambda>f. case sell_price f of None \<Rightarrow> Fin 0 | Some s \<Rightarrow> s) example_flips)"
    and b: "totalPurchases (summary d) = sum_left (map buy_price example_flips)"
    and e: "totalExpenses (summary d) = sum_left (map (\<lambda>x. totalCost (totals x)) (flips d))"
    by blast+
  from th p have g: "totalProfit (summary d) = Fin 130" "totalLoss (summary d) = Fin 50"
    "netGainLoss (summary d) = Fin 80"
    by blast+
  have h: "totalSales (summary d) = Fin 350" "totalPurchases (summary d) = Fin 270"
    "totalExpenses (summary d) = Fin 0"
    unfolding a b e c by (simp_all add: sum_left_def example_flips_def example_flip_def)
  show ?thesis by (rule exI [of _ d]) (simp add: d p g h)
qed

subsection \<open>C7: the itemized listing by category\<close>

text \<open>
  C7. The rows of the itemized listing are the line items sorted stably by category in
  the order parts, labor, fees, misc, none: the items of each category in their input order,
  the items without a category last, labelled \<open>misc\<close>. The summary prints one line per named
  category that has at least one item, and no line for one that has none, with the sum of
  the amounts of that category; the items without a category get the line \<open>Miscellaneous\<close>
  when their sum is positive. Both blocks are in the report, the listing first. For items
  A (parts), B (labor), C (parts) the rows are A, C, B and the parts subtotal is \<open>(0 + A) + C\<close>.
\<close>

theorem C7_itemized_listing_by_category:
  "expense_rows e items content = content @ listing_text e items
   \<and> sort_key (\<lambda>item. category_rank (category item)) items
       = filter (\<lambda>item. category item = Some Parts) items
         @ filter (\<lambda>item. category item = Some Labor) items
         @ filter (\<lambda>item. category item = Some Fees) items
         @ filter (\<lambda>item. category item = Some Misc) items
         @ filter (\<lambda>item. category item = None) items
   \<and> (\<forall>c. filter (\<lambda>item. category item = c) (sort_key (\<lambda>item. category_rank (category item)) items)
            = filter (\<lambda>item. category item = c) items)
   \<and> category_totals e items content = content @ summary_text e items
   \<and> in_order (listing_text e (lineItems d)) (summary_text e (lineItems d))
        (generateTaxExportPDF e d)
   \<and> expense_rows e
        [a\<lparr>category := Some Parts\<rparr>, b\<lparr>category := Some Labor\<rparr>, c\<lparr>category := Some Parts\<rparr>] []
       = expense_row e (js ''parts'') (a\<lparr>category := Some Parts\<rparr>)
         @ expense_row e (js ''parts'') (c\<lparr>category := Some Parts\<rparr>)
         @ expense_row e (js ''labor'') (b\<lparr>category := Some Labor\<rparr>)
   \<and> category_totals e
        [a\<lparr>category := Some Parts\<rparr>, b\<lparr>category := Some Labor\<rparr>, c\<lparr>category := Some Parts\<rparr>] []
       = js ''Parts: '' @ formatCurrency e (num_add (num_add (Fin 0) (amount_li a)) (amount_li c)) @ nl
         @ js ''Labor: '' @ formatCurrency e (num_add (Fin 0) (amount_li b)) @ nl"
proof -
  have 1: "expense_rows e items content = content @ listing_text e items" for items content
    by (simp add: expense_rows_text listing_text_def)
  have 3: "filter (\<lambda>item. category item = c) (sort_key (\<lambda>item. category_rank (category item)) items)
            = filter (\<lambda>item. category item = c) items" for c
    using sort_key_stable [of "\<lambda>item. category_rank (category item)" "category_rank c" items]
    by (simp add: category_rank_inj)
  have 4: "category_totals e items content = content @ summary_text e items" for items content
    by (simp add: category_totals_text summary_text_def)
  have 6: "expense_rows e
        [a\<lparr>category := Some Parts\<rparr>, b\<lparr>category := Some Labor\<rparr>, c\<lparr>category := Some Parts\<rparr>] []
       = expense_row e (js ''parts'') (a\<lparr>category := Some Parts\<rparr>)
         @ expense_row e (js ''parts'') (c\<lparr>category := Some Parts\<rparr>)
         @ expense_row e (js ''labor'') (b\<lparr>category := Some Labor\<rparr>)"
    by (simp add: 1 listing_text_def sort_by_category row_label_def category_name_def)
  have 7: "category_totals e
        [a\<lparr>category := Some Parts\<rparr>, b\<lparr>category := Some Labor\<rparr>, c\<lparr>category := Some Parts\<rparr>] []
       = js ''Parts: '' @ formatCurrency e (num_add (num_add (Fin 0) (amount_li a)) (amount_li c)) @ nl
         @ js ''Labor: '' @ formatCurrency e (num_add (Fin 0) (amount_li b)) @ nl"
    by (simp add: 4 summary_text_def categories_def category_amounts_def sum_left_def
        capitalized_names js_def)
  show ?thesis using 1 sort_by_category 3 4 report_blocks_in_order 6 7 by blast
qed

end
